theory Spec2Isabelle
  imports Main
begin

section \<open>Data model of pkg/image/image.go\<close>

text \<open>
  Errors are values. The constructors are the errors that image.go itself creates
  (\<open>fmt.Errorf\<close>); \<open>External\<close> stands for an error handed over by a collaborator
  (the filetree package, the file catalog, the tar reader, the tag parser).
\<close>

datatype error =
    External string
  | NoContentObservers
  | MismatchedTarHeaderNames string string
  | UnexpectedVisitError string error
  | FailedToSquash nat error

text \<open>
  A Go function either returns or panics. Indexing a slice outside \<open>0 \<le> i < len\<close>
  panics with the index and the length.
\<close>

datatype panic = IndexOutOfRange int int

datatype 'a go = Panic panic | Return 'a

definition go_index :: "'a list \<Rightarrow> int \<Rightarrow> 'a go" where
  "go_index xs i =
     (if 0 \<le> i \<and> i < int (length xs) then Return (xs ! nat i)
      else Panic (IndexOutOfRange i (int (length xs))))"

text \<open>
  \<open>file.Reference\<close>: an identifier and the real path. \<open>FileCatalogEntry\<close>: the
  reference (\<open>entry.File\<close>) and the tar header name recorded at parse time
  (\<open>entry.Metadata.TarHeaderName\<close>). \<open>tar.Header\<close>: the name of the live entry.
\<close>

record Reference =
  ref_id :: nat
  RealPath :: string

record FileCatalogEntry =
  File :: Reference
  TarHeaderName :: string

record Header =
  Name :: string

text \<open>
  A value of type \<open>*filetree.FileTree\<close> is a \<open>'t option\<close>: \<open>None\<close> is the nil
  pointer, and \<open>'t\<close> is the tree itself, which image.go never looks into.
  A layer carries its digest (\<open>l.Metadata.Digest\<close>), its own tree, its squashed tree
  and what \<open>l.content()\<close> yields: an error, or the tar stream, a list of entries each of
  which is a read error of the tar reader or a header with the bytes of the entry.
\<close>

record 't Layer =
  Digest :: string
  Tree :: "'t option"
  SquashedTree :: "'t option"
  content :: "error + (error + Header \<times> string) list"

text \<open>
  \<open>Metadata.Tags\<close> is a slice: \<open>None\<close> is the nil slice, \<open>Some []\<close> an empty one.
\<close>

record 'tag Metadata =
  ID :: string
  Tags :: "'tag list option"
  Size :: int

record ('t, 'c, 'tag) Image =
  Metadata :: "'tag Metadata"
  Layers :: "'t Layer list"
  FileCatalog :: 'c

section \<open>WithTags\<close>

text \<open>
  \<open>name.NewTag\<close> belongs to an external library and is a parameter: it returns a tag
  and an error (\<open>None\<close> is nil). \<open>zeroTag\<close> is the zero value \<open>make\<close> fills the slice
  with. The loop assigns \<open>Tags[i]\<close> (the slice under construction is \<open>slice\<close>) and the
  error together, and on an error sets the slice to nil and breaks.
\<close>

fun WithTags_loop ::
  "(string \<Rightarrow> 'tag \<times> error option) \<Rightarrow> nat \<Rightarrow> string list \<Rightarrow> 'tag list
     \<Rightarrow> 'tag list option \<times> error option" where
  "WithTags_loop NewTag i [] slice = (Some slice, None)"
| "WithTags_loop NewTag i (t # ts) slice =
     (case NewTag t of
        (tag, None) \<Rightarrow> WithTags_loop NewTag (Suc i) ts (slice[i := tag])
      | (tag, Some err) \<Rightarrow> (None, Some err))"

definition WithTags ::
  "(string \<Rightarrow> 'tag \<times> error option) \<Rightarrow> 'tag \<Rightarrow> string list
     \<Rightarrow> ('t, 'c, 'tag) Image \<Rightarrow> error option \<times> ('t, 'c, 'tag) Image" where
  "WithTags NewTag zeroTag tags img =
     (case WithTags_loop NewTag 0 tags (replicate (length tags) zeroTag) of
        (slice, err) \<Rightarrow> (err, img\<lparr>Metadata := (Metadata img)\<lparr>Tags := slice\<rparr>\<rparr>))"

section \<open>The squash pass\<close>

text \<open>
  The filetree package lies outside image.go. A \<open>UnionFileTree\<close> is the list
  of the trees pushed onto it; what \<open>Squash\<close> makes of that list is a parameter.
  Progress reporting (\<open>prog.N++\<close>, \<open>prog.SetCompleted\<close>) does not influence the result
  and is left out.
\<close>

type_synonym 't UnionFileTree = "'t option list"

definition NewUnionFileTree :: "'t UnionFileTree" where
  "NewUnionFileTree = []"

definition PushTree :: "'t UnionFileTree \<Rightarrow> 't option \<Rightarrow> 't UnionFileTree" where
  "PushTree u t = u @ [t]"

text \<open>
  The loop \<open>for idx, layer := range i.Layers\<close>. Layers are held by pointer, so the
  assignments to \<open>layer.SquashedTree\<close> made before an error stay in the image.
\<close>

fun squash_loop ::
  "('t UnionFileTree \<Rightarrow> error + 't option) \<Rightarrow> nat \<Rightarrow> 't option \<Rightarrow> 't Layer list
     \<Rightarrow> error option \<times> 't Layer list" where
  "squash_loop Squash idx lastSquashTree [] = (None, [])"
| "squash_loop Squash idx lastSquashTree (layer # rest) =
     (if idx = 0 then
        (case squash_loop Squash (Suc idx) (Tree layer) rest of
           (err, rest') \<Rightarrow> (err, layer\<lparr>SquashedTree := Tree layer\<rparr> # rest'))
      else
        (case Squash (PushTree (PushTree NewUnionFileTree lastSquashTree) (Tree layer)) of
           Inl err \<Rightarrow> (Some (FailedToSquash idx err), layer # rest)
         | Inr squashedTree \<Rightarrow>
             (case squash_loop Squash (Suc idx) squashedTree rest of
                (err, rest') \<Rightarrow> (err, layer\<lparr>SquashedTree := squashedTree\<rparr> # rest'))))"

definition squash ::
  "('t UnionFileTree \<Rightarrow> error + 't option) \<Rightarrow> ('t, 'c, 'tag) Image
     \<Rightarrow> error option \<times> ('t, 'c, 'tag) Image" where
  "squash Squash i =
     (case squash_loop Squash 0 None (Layers i) of
        (err, layers') \<Rightarrow> (err, i\<lparr>Layers := layers'\<rparr>))"

section \<open>The image squash view and link resolution\<close>

text \<open>
  \<open>Image.SquashedTree\<close>. \<open>NewFileTree\<close> (the fresh, empty tree of the filetree
  package) is a parameter.
\<close>

definition Image_SquashedTree :: "'t \<Rightarrow> ('t, 'c, 'tag) Image \<Rightarrow> 't option go" where
  "Image_SquashedTree NewFileTree i =
     (let layerCount = int (length (Layers i)) in
      if layerCount = 0 then Return (Some NewFileTree)
      else (case go_index (Layers i) (layerCount - 1) of
              Panic p \<Rightarrow> Panic p
            | Return topLayer \<Rightarrow> Return (SquashedTree topLayer)))"

text \<open>
  Link resolution options. Only \<open>filetree.FollowBasenameLinks\<close> is named by image.go;
  any other policy a caller adds is an \<open>OtherPolicy\<close>.
\<close>

datatype LinkResolutionOption = FollowBasenameLinks | OtherPolicy nat

text \<open>
  \<open>FileTree.File\<close> belongs to the filetree package, which lies outside image.go: it
  is the parameter \<open>FileTree_File\<close>, given the tree, the path and the options in the
  order in which they are passed, and yielding the resolved reference and the error
  (the second and third results of \<open>File\<close>).
\<close>

definition ResolveLinkByLayerSquash ::
  "('t option \<Rightarrow> string \<Rightarrow> LinkResolutionOption list \<Rightarrow> Reference option \<times> error option)
     \<Rightarrow> ('t, 'c, 'tag) Image \<Rightarrow> Reference \<Rightarrow> int \<Rightarrow> LinkResolutionOption list
     \<Rightarrow> (Reference option \<times> error option) go" where
  "ResolveLinkByLayerSquash FileTree_File i ref layer options =
     (let allOptions = [FollowBasenameLinks] @ options in
      case go_index (Layers i) layer of
        Panic p \<Rightarrow> Panic p
      | Return l \<Rightarrow> Return (FileTree_File (SquashedTree l) (RealPath ref) allOptions))"

definition ResolveLinkByImageSquash ::
  "('t option \<Rightarrow> string \<Rightarrow> LinkResolutionOption list \<Rightarrow> Reference option \<times> error option)
     \<Rightarrow> ('t, 'c, 'tag) Image \<Rightarrow> Reference \<Rightarrow> LinkResolutionOption list
     \<Rightarrow> (Reference option \<times> error option) go" where
  "ResolveLinkByImageSquash FileTree_File i ref options =
     (let allOptions = [FollowBasenameLinks] @ options in
      case go_index (Layers i) (int (length (Layers i)) - 1) of
        Panic p \<Rightarrow> Panic p
      | Return l \<Rightarrow> Return (FileTree_File (SquashedTree l) (RealPath ref) allOptions))"

text \<open>
  Modelled from the spec: how \<open>FileTree.File\<close> (pkg/filetree, absent from the
  sources) reads its options. The spec says the policies are "combined as a set (not a
  priority order) -- all enabled policies apply simultaneously, not sequentially": the
  options are turned into the set of the enabled policies, and the lookup proper, the
  parameter \<open>resolve\<close>, sees that set only.
\<close>

definition File_lookup ::
  "('t option \<Rightarrow> string \<Rightarrow> LinkResolutionOption set \<Rightarrow> Reference option \<times> error option)
     \<Rightarrow> 't option \<Rightarrow> string \<Rightarrow> LinkResolutionOption list
     \<Rightarrow> Reference option \<times> error option" where
  "File_lookup resolve tree path options = resolve tree path (set options)"

section \<open>The content distribution pass\<close>

text \<open>
  A \<open>ContentObservation\<close> is what is sent to an observer: the catalog entry and the
  reader for its content (here the bytes it reads).
\<close>

record ContentObservation =
  Entry :: FileCatalogEntry
  Content :: string

text \<open>
  A \<open>ContentObserver\<close> answers \<open>IsInterestedIn\<close>; its \<open>ObserveContent\<close> runs as a
  goroutine at the receiving end of its channel. All the sender can see of that
  goroutine is how many observations it takes from the channel: \<open>receives\<close> is
  \<open>Some n\<close> when it stops receiving after \<open>n\<close> of them and \<open>None\<close> when it receives
  until the channel is closed.
\<close>

record ContentObserver =
  IsInterestedIn :: "Reference \<Rightarrow> bool"
  receives :: "nat option"

text \<open>
  What the pipeline does to the outside is recorded as a trace of events:
  \<open>MakeChan idx cap\<close> for \<open>make(chan ContentObservation)\<close> of subscription \<open>idx\<close>
  (\<open>cap\<close> is the buffer size, 0 as no size is given), \<open>Go idx\<close> for starting
  \<open>observers[idx].ObserveContent\<close>, \<open>LayerContent n\<close> for \<open>l.content()\<close> of the
  \<open>n\<close>-th layer, \<open>PrepareContentReader n index idx ref res\<close> for the call of
  \<open>prepareContentReader\<close> on \<open>ref\<close> made for observer \<open>idx\<close> while entry \<open>index\<close> of
  layer \<open>n\<close> is visited, \<open>res\<close> being the error or the reader the call returned,
  \<open>Send n index idx ob\<close> for a completed send of \<open>ob\<close> on subscription \<open>idx\<close> during
  that visit, and \<open>Close idx\<close> for closing subscription \<open>idx\<close>.
\<close>

datatype event =
    MakeChan nat nat
  | Go nat
  | LayerContent nat
  | PrepareContentReader nat nat nat Reference "error + string"
  | Send nat nat nat ContentObservation
  | Close nat

text \<open>
  A run returns nil (\<open>Done\<close>), returns an error, or never returns because a send on
  an unbuffered channel waits for a receiver that does not come (\<open>Blocked\<close>).
\<close>

datatype status = Done | Failed error | Blocked

fun sent_to :: "nat \<Rightarrow> event \<Rightarrow> bool" where
  "sent_to idx (Send n index j ob) = (j = idx)"
| "sent_to idx e = False"

definition sends_to :: "nat \<Rightarrow> event list \<Rightarrow> nat" where
  "sends_to idx ev = length (filter (sent_to idx) ev)"

text \<open>
  A send on a channel of capacity 0 completes when the receiver takes the value: the
  observer accepts its \<open>k\<close>-th observation (counting from 0) if it receives more than
  \<open>k\<close> of them.
\<close>

definition accepts :: "ContentObserver \<Rightarrow> nat \<Rightarrow> bool" where
  "accepts observer k = (case receives observer of None \<Rightarrow> True | Some n \<Rightarrow> k < n)"

text \<open>
  The loop that makes one channel per observer and starts its goroutine, and the
  deferred function that closes every channel.
\<close>

fun subscribe :: "nat \<Rightarrow> ContentObserver list \<Rightarrow> event list" where
  "subscribe idx [] = []"
| "subscribe idx (observer # rest) = MakeChan idx 0 # Go idx # subscribe (Suc idx) rest"

definition close_subscriptions :: "nat \<Rightarrow> event list" where
  "close_subscriptions n = map Close [0..<n]"

text \<open>
  The file catalog lies outside image.go: its state is a \<open>'c\<close>, and its two
  methods are parameters. \<open>getByLayerTarIndex\<close> reads the catalog;
  \<open>prepareContentReader\<close> is given the catalog and the tar reader (the bytes of the
  entry not read yet) and yields a reader or an error, the catalog and the tar reader
  as it leaves them.

  The loop \<open>for idx, observer := range observers\<close> of the tar visitor: \<open>n\<close> and
  \<open>index\<close> are the layer and the entry being visited.
\<close>

fun observers_loop ::
  "('c \<Rightarrow> Reference \<Rightarrow> string \<Rightarrow> (error + string) \<times> 'c \<times> string)
     \<Rightarrow> nat \<Rightarrow> nat \<Rightarrow> FileCatalogEntry \<Rightarrow> nat \<Rightarrow> ContentObserver list
     \<Rightarrow> string \<Rightarrow> 'c \<Rightarrow> event list \<Rightarrow> status \<times> 'c \<times> event list" where
  "observers_loop prepareContentReader n index entry idx [] tarReader c ev = (Done, c, ev)"
| "observers_loop prepareContentReader n index entry idx (observer # rest) tarReader c ev =
     (if IsInterestedIn observer (File entry) then
        (case prepareContentReader c (File entry) tarReader of
           (Inl err, c', tarReader') \<Rightarrow>
             (Failed err, c', ev @ [PrepareContentReader n index idx (File entry) (Inl err)])
         | (Inr uniqueContentReader, c', tarReader') \<Rightarrow>
             (let ev' = ev @ [PrepareContentReader n index idx (File entry)
                                (Inr uniqueContentReader)] in
              if accepts observer (sends_to idx ev') then
                observers_loop prepareContentReader n index entry (Suc idx) rest tarReader' c'
                  (ev' @ [Send n index idx
                            \<lparr>Entry = entry, Content = uniqueContentReader\<rparr>])
              else (Blocked, c', ev')))
      else observers_loop prepareContentReader n index entry (Suc idx) rest tarReader c ev)"

definition tarVisitor ::
  "('c \<Rightarrow> string \<Rightarrow> nat \<Rightarrow> error + FileCatalogEntry)
     \<Rightarrow> ('c \<Rightarrow> Reference \<Rightarrow> string \<Rightarrow> (error + string) \<times> 'c \<times> string)
     \<Rightarrow> ContentObserver list \<Rightarrow> nat \<Rightarrow> 't Layer
     \<Rightarrow> nat \<Rightarrow> Header \<Rightarrow> string \<Rightarrow> 'c \<Rightarrow> event list \<Rightarrow> status \<times> 'c \<times> event list" where
  "tarVisitor getByLayerTarIndex prepareContentReader observers n l index header tarReader c ev =
     (case getByLayerTarIndex c (Digest l) index of
        Inl err \<Rightarrow> (Failed (UnexpectedVisitError (Name header) err), c, ev)
      | Inr entry \<Rightarrow>
          if TarHeaderName entry \<noteq> Name header then
            (Failed (MismatchedTarHeaderNames (Name header) (TarHeaderName entry)), c, ev)
          else observers_loop prepareContentReader n index entry 0 observers tarReader c ev)"

text \<open>
  Modelled from the spec: \<open>file.TarIterator\<close> (pkg/file, absent from the sources).
  The spec has the pipeline visit the entries of an archive in archive order, match
  each by its position ("archive-entry index"), and has a fatal error ("mismatched
  catalog entry, archive read failure") abort the whole run and propagate to the
  caller: the iterator calls the visitor on each entry with its index, counted from 0,
  and stops with the first error of the tar reader or of the visitor.
\<close>

fun TarIterator ::
  "(nat \<Rightarrow> Header \<Rightarrow> string \<Rightarrow> 'c \<Rightarrow> event list \<Rightarrow> status \<times> 'c \<times> event list)
     \<Rightarrow> nat \<Rightarrow> (error + Header \<times> string) list \<Rightarrow> 'c \<Rightarrow> event list
     \<Rightarrow> status \<times> 'c \<times> event list" where
  "TarIterator visitor index [] c ev = (Done, c, ev)"
| "TarIterator visitor index (Inl err # rest) c ev = (Failed err, c, ev)"
| "TarIterator visitor index (Inr (header, tarReader) # rest) c ev =
     (case visitor index header tarReader c ev of
        (st, c', ev') \<Rightarrow>
          if st = Done then TarIterator visitor (Suc index) rest c' ev' else (st, c', ev'))"

text \<open>The loop \<open>for _, l := range i.Layers\<close>; \<open>n\<close> counts the layers.\<close>

fun layers_loop ::
  "('c \<Rightarrow> string \<Rightarrow> nat \<Rightarrow> error + FileCatalogEntry)
     \<Rightarrow> ('c \<Rightarrow> Reference \<Rightarrow> string \<Rightarrow> (error + string) \<times> 'c \<times> string)
     \<Rightarrow> ContentObserver list \<Rightarrow> nat \<Rightarrow> 't Layer list \<Rightarrow> 'c \<Rightarrow> event list
     \<Rightarrow> status \<times> 'c \<times> event list" where
  "layers_loop getByLayerTarIndex prepareContentReader observers n [] c ev = (Done, c, ev)"
| "layers_loop getByLayerTarIndex prepareContentReader observers n (l # rest) c ev =
     (case content l of
        Inl err \<Rightarrow> (Failed err, c, ev @ [LayerContent n])
      | Inr layerTarReader \<Rightarrow>
          (case TarIterator
                  (tarVisitor getByLayerTarIndex prepareContentReader observers n l)
                  0 layerTarReader c (ev @ [LayerContent n]) of
             (st, c', ev') \<Rightarrow>
               if st = Done
               then layers_loop getByLayerTarIndex prepareContentReader observers (Suc n) rest c' ev'
               else (st, c', ev')))"

text \<open>
  \<open>Image.IterateContent\<close>. The deferred closing runs on every return, and on no
  other occasion.
\<close>

definition IterateContent ::
  "('c \<Rightarrow> string \<Rightarrow> nat \<Rightarrow> error + FileCatalogEntry)
     \<Rightarrow> ('c \<Rightarrow> Reference \<Rightarrow> string \<Rightarrow> (error + string) \<times> 'c \<times> string)
     \<Rightarrow> ('t, 'c, 'tag) Image \<Rightarrow> ContentObserver list
     \<Rightarrow> status \<times> ('t, 'c, 'tag) Image \<times> event list" where
  "IterateContent getByLayerTarIndex prepareContentReader i observers =
     (if length observers = 0 then (Failed NoContentObservers, i, [])
      else
        (case layers_loop getByLayerTarIndex prepareContentReader observers 0 (Layers i)
                (FileCatalog i) (subscribe 0 observers) of
           (st, c, ev) \<Rightarrow>
             (st, i\<lparr>FileCatalog := c\<rparr>,
              if st = Blocked then ev else ev @ close_subscriptions (length observers))))"

section \<open>Reading a trace\<close>

text \<open>
  The sends of a trace, each as (layer, entry index, observer index), in the order of
  the trace; the entries delivered to one observer; the observers one entry was
  delivered to; the number of calls of \<open>prepareContentReader\<close> made for one entry; and
  the indices of the observers interested in a reference, in registration order.
\<close>

fun send_key :: "event \<Rightarrow> (nat \<times> nat \<times> nat) list" where
  "send_key (Send n index idx ob) = [(n, index, idx)]"
| "send_key e = []"

definition send_keys :: "event list \<Rightarrow> (nat \<times> nat \<times> nat) list" where
  "send_keys ev = concat (map send_key ev)"



fun is_prepare :: "nat \<Rightarrow> nat \<Rightarrow> event \<Rightarrow> bool" where
  "is_prepare n index (PrepareContentReader a b idx ref res) = (a = n \<and> b = index)"
| "is_prepare n index e = False"

definition prepare_calls :: "nat \<Rightarrow> nat \<Rightarrow> event list \<Rightarrow> nat" where
  "prepare_calls n index ev = length (filter (is_prepare n index) ev)"

definition interested :: "ContentObserver list \<Rightarrow> Reference \<Rightarrow> nat list" where
  "interested observers ref =
     filter (\<lambda>idx. IsInterestedIn (observers ! idx) ref) [0..<length observers]"


text \<open>
  Entry \<open>(n, index)\<close> comes before entry \<open>(n', index')\<close>: an earlier layer, or the same
  layer and an earlier position in its archive. Keys are ordered likewise, the
  observer index last.
\<close>

definition entry_before :: "nat \<times> nat \<Rightarrow> nat \<times> nat \<Rightarrow> bool" where
  "entry_before p q = (fst p < fst q \<or> fst p = fst q \<and> snd p < snd q)"

definition key_before :: "nat \<times> nat \<times> nat \<Rightarrow> nat \<times> nat \<times> nat \<Rightarrow> bool" where
  "key_before k k' =
     (entry_before (fst k, fst (snd k)) (fst k', fst (snd k')) \<or>
      (fst k, fst (snd k)) = (fst k', fst (snd k')) \<and> snd (snd k) < snd (snd k'))"

section \<open>Invariants of a run\<close>

text \<open>
  Predicates used in the proofs about \<open>IterateContent\<close>. \<open>key_le\<close> is \<open>key_before\<close>
  or equal. \<open>within_receives\<close>: no observer has been sent more observations than it
  receives. \<open>blocked_at\<close>: the trace ends with a reader prepared for an observer that
  receives no more. \<open>pipeline_event\<close>: the events the loops over layers, entries and
  observers emit. \<open>send_located\<close>: a send goes to a registered observer interested in
  the file of the entry, and its layer number and entry index name a header of that
  layer's archive whose name is the one the entry records. \<open>answered\<close>: every reader
  that a call of \<open>prepareContentReader\<close> returned is, if the observer it was prepared
  for accepts it, sent to that observer as the very next event, and otherwise the run
  is blocked and the trace ends there. \<open>run_ok full ls lo hi ev st ev'\<close>: a run of one
  of these loops that started with trace \<open>ev\<close> and ended with \<open>ev'\<close> and status \<open>st\<close> only
  appended pipeline events, its sends are located and in key order with keys from \<open>lo\<close>
  up to (not including) \<open>hi\<close>, it kept \<open>within_receives\<close> and \<open>answered\<close>, and if it
  blocked it is \<open>blocked_at\<close> the end of the trace.
\<close>

definition key_le :: "nat \<times> nat \<times> nat \<Rightarrow> nat \<times> nat \<times> nat \<Rightarrow> bool" where
  "key_le lo k = (lo = k \<or> key_before lo k)"

definition within_receives :: "ContentObserver list \<Rightarrow> event list \<Rightarrow> bool" where
  "within_receives observers ev =
     (\<forall>idx<length observers. \<forall>m. receives (observers ! idx) = Some m \<longrightarrow> sends_to idx ev \<le> m)"

definition blocked_at :: "ContentObserver list \<Rightarrow> event list \<Rightarrow> bool" where
  "blocked_at observers ev =
     (ev \<noteq> [] \<and>
      (\<exists>n index idx ref rdr. idx < length observers \<and>
         last ev = PrepareContentReader n index idx ref (Inr rdr) \<and>
         \<not> accepts (observers ! idx) (sends_to idx ev)))"

fun pipeline_event :: "event \<Rightarrow> bool" where
  "pipeline_event (LayerContent n) = True"
| "pipeline_event (PrepareContentReader n index idx ref res) = True"
| "pipeline_event (Send n index idx ob) = True"
| "pipeline_event e = False"

fun send_located :: "'t Layer list \<Rightarrow> ContentObserver list \<Rightarrow> event \<Rightarrow> bool" where
  "send_located ls observers (Send n index idx ob) =
     (idx < length observers \<and> IsInterestedIn (observers ! idx) (File (Entry ob)) \<and>
      n < length ls \<and>
      (\<exists>es header tarReader. content (ls ! n) = Inr es \<and> index < length es \<and>
         es ! index = Inr (header, tarReader) \<and> Name header = TarHeaderName (Entry ob)))"
| "send_located ls observers e = True"

definition answered :: "ContentObserver list \<Rightarrow> status \<Rightarrow> event list \<Rightarrow> bool" where
  "answered observers st ev =
     (\<forall>pre n index idx ref rdr suf.
        ev = pre @ PrepareContentReader n index idx ref (Inr rdr) # suf \<longrightarrow>
        idx < length observers \<and>
        (if accepts (observers ! idx) (sends_to idx pre)
         then \<exists>ob suf'. suf = Send n index idx ob # suf' \<and> Content ob = rdr \<and> File (Entry ob) = ref
         else st = Blocked \<and> suf = []))"

definition run_ok ::
  "ContentObserver list \<Rightarrow> 't Layer list \<Rightarrow> nat \<times> nat \<times> nat \<Rightarrow> nat \<times> nat \<times> nat
     \<Rightarrow> event list \<Rightarrow> status \<Rightarrow> event list \<Rightarrow> bool" where
  "run_ok full ls lo hi ev st ev' =
     (\<exists>new. ev' = ev @ new \<and> list_all pipeline_event new \<and>
        sorted_wrt key_before (send_keys new) \<and>
        (\<forall>k\<in>set (send_keys new). key_le lo k \<and> key_before k hi) \<and>
        (within_receives full ev \<longrightarrow> within_receives full ev') \<and>
        (st = Blocked \<longrightarrow> blocked_at full ev') \<and>
        list_all (send_located ls full) new \<and>
        (answered full Done ev \<longrightarrow> answered full st ev'))"

section \<open>Example images and observers\<close>

text \<open>
  Concrete inputs on which the theorems below are instantiated. Trees are lists of
  paths and tags are strings. The example catalog holds an association list from
  (layer digest, entry index) to catalog entry and a content cache by reference id:
  \<open>example_prepareContentReader\<close> returns the cached bytes of a reference if there are
  any and leaves the tar reader alone, and otherwise reads the tar reader to its end,
  caches the bytes and returns them. \<open>example_Squash\<close> appends the upper tree to the
  lower one and fails on a tree holding \<open>/unreadable\<close>; \<open>example_NewTag\<close> rejects a
  tag with a blank; \<open>example_resolve\<close> finds a path of the tree when the policy set
  holds \<open>FollowBasenameLinks\<close>; \<open>first_option_File\<close> is a lookup that succeeds only if
  the first option it is given is \<open>FollowBasenameLinks\<close>. The image has two layers: the
  first creates \<open>/etc/app.conf\<close> and \<open>/bin/app\<close>, the second overwrites
  \<open>/etc/app.conf\<close>. \<open>stale_layer\<close> is the first layer read again after its second
  entry was renamed in the archive. \<open>one_shot\<close> is an observer that receives one
  observation and then stops receiving.
\<close>

record ExampleCatalog =
  by_position :: "((string \<times> nat) \<times> FileCatalogEntry) list"
  cached :: "(nat \<times> string) list"

definition example_Squash :: "string list UnionFileTree \<Rightarrow> error + string list option" where
  "example_Squash u =
     (case u of
        [Some lower, Some upper] \<Rightarrow>
          if ''/unreadable'' \<in> set upper then Inl (External ''squash'')
          else Inr (Some (lower @ upper))
      | _ \<Rightarrow> Inl (External ''nil tree''))"

definition conf_ref :: Reference where
  "conf_ref = \<lparr>ref_id = 1, RealPath = ''/etc/app.conf''\<rparr>"

definition bin_ref :: Reference where
  "bin_ref = \<lparr>ref_id = 2, RealPath = ''/bin/app''\<rparr>"

definition conf2_ref :: Reference where
  "conf2_ref = \<lparr>ref_id = 3, RealPath = ''/etc/app.conf''\<rparr>"

definition example_catalog :: ExampleCatalog where
  "example_catalog =
     \<lparr>by_position =
        [((''l0'', 0), \<lparr>File = conf_ref, TarHeaderName = ''etc/app.conf''\<rparr>),
         ((''l0'', 1), \<lparr>File = bin_ref, TarHeaderName = ''bin/app''\<rparr>),
         ((''l1'', 0), \<lparr>File = conf2_ref, TarHeaderName = ''etc/app.conf''\<rparr>)],
      cached = []\<rparr>"

definition example_getByLayerTarIndex ::
  "ExampleCatalog \<Rightarrow> string \<Rightarrow> nat \<Rightarrow> error + FileCatalogEntry" where
  "example_getByLayerTarIndex c digest index =
     (case map_of (by_position c) (digest, index) of
        None \<Rightarrow> Inl (External ''no catalog entry'')
      | Some entry \<Rightarrow> Inr entry)"

definition example_prepareContentReader ::
  "ExampleCatalog \<Rightarrow> Reference \<Rightarrow> string \<Rightarrow> (error + string) \<times> ExampleCatalog \<times> string" where
  "example_prepareContentReader c ref tarReader =
     (case map_of (cached c) (ref_id ref) of
        Some bytes \<Rightarrow> (Inr bytes, c, tarReader)
      | None \<Rightarrow> (Inr tarReader, c\<lparr>cached := (ref_id ref, tarReader) # cached c\<rparr>, []))"

definition layer0 :: "string list Layer" where
  "layer0 = \<lparr>Digest = ''l0'', Tree = Some [''/etc/app.conf'', ''/bin/app''],
             SquashedTree = None,
             content = Inr [Inr (\<lparr>Name = ''etc/app.conf''\<rparr>, ''v1''),
                            Inr (\<lparr>Name = ''bin/app''\<rparr>, ''ELF'')]\<rparr>"

definition layer1 :: "string list Layer" where
  "layer1 = \<lparr>Digest = ''l1'', Tree = Some [''/etc/app.conf''],
             SquashedTree = None,
             content = Inr [Inr (\<lparr>Name = ''etc/app.conf''\<rparr>, ''v2'')]\<rparr>"

definition layer2 :: "string list Layer" where
  "layer2 = \<lparr>Digest = ''l2'', Tree = Some [''/unreadable''],
             SquashedTree = None, content = Inl (External ''no tar'')\<rparr>"

definition example_image :: "(string list, ExampleCatalog, string) Image" where
  "example_image =
     \<lparr>Metadata = \<lparr>ID = ''sha256:0'', Tags = Some [''old:1''], Size = 0\<rparr>,
      Layers = [layer0, layer1], FileCatalog = example_catalog\<rparr>"

definition conf_only :: ContentObserver where
  "conf_only = \<lparr>IsInterestedIn = (\<lambda>ref. RealPath ref = ''/etc/app.conf''), receives = None\<rparr>"

definition catch_all :: ContentObserver where
  "catch_all = \<lparr>IsInterestedIn = (\<lambda>ref. True), receives = None\<rparr>"

definition one_shot :: ContentObserver where
  "one_shot = \<lparr>IsInterestedIn = (\<lambda>ref. True), receives = Some 1\<rparr>"

definition example_NewTag :: "string \<Rightarrow> string \<times> error option" where
  "example_NewTag t = (if CHR '' '' \<in> set t then ([], Some (External ''bad tag'')) else (t, None))"

definition example_resolve ::
  "string list option \<Rightarrow> string \<Rightarrow> LinkResolutionOption set \<Rightarrow> Reference option \<times> error option" where
  "example_resolve tree path policies =
     (case tree of
        None \<Rightarrow> (None, Some (External ''nil tree''))
      | Some paths \<Rightarrow>
          if FollowBasenameLinks \<in> policies \<and> path \<in> set paths
          then (Some \<lparr>ref_id = 0, RealPath = path\<rparr>, None) else (None, None))"

definition first_option_File ::
  "string list option \<Rightarrow> string \<Rightarrow> LinkResolutionOption list \<Rightarrow> Reference option \<times> error option" where
  "first_option_File tree path options =
     (case options of
        FollowBasenameLinks # rest \<Rightarrow> (Some \<lparr>ref_id = 0, RealPath = path\<rparr>, None)
      | _ \<Rightarrow> (None, Some (External ''first option'')))"

definition squashed_image :: "(string list, ExampleCatalog, string) Image" where
  "squashed_image = snd (squash example_Squash example_image)"

definition empty_image :: "(string list, ExampleCatalog, string) Image" where
  "empty_image = example_image\<lparr>Layers := []\<rparr>"

definition stale_layer :: "string list Layer" where
  "stale_layer = layer0\<lparr>content :=
     Inr [Inr (\<lparr>Name = ''etc/app.conf''\<rparr>, ''v1''),
          Inr (\<lparr>Name = ''bin/other''\<rparr>, ''ELF''),
          Inr (\<lparr>Name = ''bin/more''\<rparr>, ''x'')]\<rparr>"

definition stale_image :: "(string list, ExampleCatalog, string) Image" where
  "stale_image = example_image\<lparr>Layers := [layer1, stale_layer, layer2]\<rparr>"

definition conf_entry :: FileCatalogEntry where
  "conf_entry = \<lparr>File = conf_ref, TarHeaderName = ''etc/app.conf''\<rparr>"

definition bin_entry :: FileCatalogEntry where
  "bin_entry = \<lparr>File = bin_ref, TarHeaderName = ''bin/app''\<rparr>"

definition conf2_entry :: FileCatalogEntry where
  "conf2_entry = \<lparr>File = conf2_ref, TarHeaderName = ''etc/app.conf''\<rparr>"


definition example_image_after :: "(string list, ExampleCatalog, string) Image" where
  "example_image_after =
     example_image\<lparr>FileCatalog :=
       example_catalog\<lparr>cached := [(3, ''v2''), (2, ''ELF''), (1, ''v1'')]\<rparr>\<rparr>"



definition blocked_image :: "(string list, ExampleCatalog, string) Image" where
  "blocked_image =
     example_image\<lparr>FileCatalog :=
       example_catalog\<lparr>cached := [(2, ''ELF''), (1, ''v1'')]\<rparr>\<rparr>"

definition stale_prefix :: "event list" where
  "stale_prefix =
     [MakeChan 0 0, Go 0, MakeChan 1 0, Go 1,
      LayerContent 0,
      PrepareContentReader 0 0 0 conf2_ref (Inr ''v2''),
      Send 0 0 0 \<lparr>Entry = conf2_entry, Content = ''v2''\<rparr>,
      PrepareContentReader 0 0 1 conf2_ref (Inr ''v2''),
      Send 0 0 1 \<lparr>Entry = conf2_entry, Content = ''v2''\<rparr>]"

definition stale_trace :: "event list" where
  "stale_trace = stale_prefix @
     [LayerContent 1,
      PrepareContentReader 1 0 0 conf_ref (Inr ''v1''),
      Send 1 0 0 \<lparr>Entry = conf_entry, Content = ''v1''\<rparr>,
      PrepareContentReader 1 0 1 conf_ref (Inr ''v1''),
      Send 1 0 1 \<lparr>Entry = conf_entry, Content = ''v1''\<rparr>]"

definition stale_catalog_before :: ExampleCatalog where
  "stale_catalog_before = example_catalog\<lparr>cached := [(3, ''v2'')]\<rparr>"

definition stale_catalog :: ExampleCatalog where
  "stale_catalog = example_catalog\<lparr>cached := [(1, ''v1''), (3, ''v2'')]\<rparr>"

definition failing_image :: "(string list, ExampleCatalog, string) Image" where
  "failing_image = example_image\<lparr>Layers := [layer0, layer1, layer2]\<rparr>"

definition partly_squashed_image :: "(string list, ExampleCatalog, string) Image" where
  "partly_squashed_image = snd (squash example_Squash failing_image)"



section \<open>Evaluation of the examples\<close>

lemmas example_defs =
  example_Squash_def conf_ref_def bin_ref_def conf2_ref_def example_catalog_def
  example_getByLayerTarIndex_def example_prepareContentReader_def layer0_def layer1_def
  layer2_def example_image_def conf_only_def catch_all_def one_shot_def example_NewTag_def
  example_resolve_def squashed_image_def empty_image_def

lemmas run_defs =
  IterateContent_def tarVisitor_def accepts_def sends_to_def close_subscriptions_def
  conf_entry_def bin_entry_def conf2_entry_def stale_layer_def stale_image_def
  example_image_after_def blocked_image_def stale_catalog_before_def stale_catalog_def

lemmas squash_defs =
  squash_def PushTree_def NewUnionFileTree_def failing_image_def partly_squashed_image_def



lemma stale_run:
  "IterateContent example_getByLayerTarIndex example_prepareContentReader stale_image
     [conf_only, catch_all] =
   (Failed (MismatchedTarHeaderNames ''bin/other'' ''bin/app''),
    stale_image\<lparr>FileCatalog := stale_catalog\<rparr>,
    stale_trace @ [Close 0, Close 1])"
  by (simp add: example_defs run_defs stale_trace_def stale_prefix_def)

section \<open>WithTags\<close>

lemma WithTags_loop_spec:
  "length slice = i + length ts \<Longrightarrow>
   WithTags_loop NewTag i ts slice =
     (case find (\<lambda>t. snd (NewTag t) \<noteq> None) ts of
        None \<Rightarrow> (Some (take i slice @ map (\<lambda>t. fst (NewTag t)) ts), None)
      | Some t \<Rightarrow> (None, snd (NewTag t)))"
proof (induction ts arbitrary: i slice)
  case Nil
  then show ?case by simp
next
  case (Cons t ts)
  obtain tag err where nt: "NewTag t = (tag, err)" by (cases "NewTag t")
  show ?case
  proof (cases err)
    case None
    have len: "length (slice[i := tag]) = Suc i + length ts" using Cons.prems by simp
    have "i < length slice" using Cons.prems by simp
    then have tk: "take (Suc i) (slice[i := tag]) = take i slice @ [tag]"
      by (simp add: take_Suc_conv_app_nth)
    have "WithTags_loop NewTag i (t # ts) slice = WithTags_loop NewTag (Suc i) ts (slice[i := tag])"
      using nt None by simp
    also have "\<dots> = (case find (\<lambda>t. snd (NewTag t) \<noteq> None) ts of
        None \<Rightarrow> (Some ((take i slice @ [tag]) @ map (\<lambda>t. fst (NewTag t)) ts), None)
      | Some t \<Rightarrow> (None, snd (NewTag t)))"
      unfolding Cons.IH[OF len] tk ..
    finally show ?thesis using nt None by (simp split: option.splits)
  next
    case (Some e)
    then show ?thesis using nt by simp
  qed
qed

text \<open>
  Claim C10. \<open>WithTags\<close> is all-or-nothing on the tag list. It parses the tags in
  order. If some tag fails to parse, the override returns the error of the first such
  tag and \<open>Metadata.Tags\<close> is nil; otherwise it returns nil and \<open>Metadata.Tags\<close> holds
  the parsed tag of every input, in the order of the inputs. Nothing else of the image
  changes.
\<close>

theorem WithTags_atomic:
  "WithTags NewTag zeroTag tags img =
     (case find (\<lambda>t. snd (NewTag t) \<noteq> None) tags of
        None \<Rightarrow> (None, img\<lparr>Metadata := (Metadata img)\<lparr>Tags := Some (map (\<lambda>t. fst (NewTag t)) tags)\<rparr>\<rparr>)
      | Some t \<Rightarrow> (snd (NewTag t), img\<lparr>Metadata := (Metadata img)\<lparr>Tags := None\<rparr>\<rparr>))"
  using WithTags_loop_spec[of "replicate (length tags) zeroTag" 0 tags NewTag]
  by (simp add: WithTags_def split: option.splits)

theorem WithTags_atomic_witness:
  "WithTags example_NewTag [] [''a:1'', ''b 2'', ''c:3''] example_image =
     (Some (External ''bad tag''),
      example_image\<lparr>Metadata := (Metadata example_image)\<lparr>Tags := None\<rparr>\<rparr>) \<and>
   WithTags example_NewTag [] [''a:1'', ''c:3''] example_image =
     (None, example_image\<lparr>Metadata := (Metadata example_image)\<lparr>Tags := Some [''a:1'', ''c:3'']\<rparr>\<rparr>)"
  using WithTags_atomic[of example_NewTag "[]" "[''a:1'', ''b 2'', ''c:3'']" example_image]
    WithTags_atomic[of example_NewTag "[]" "[''a:1'', ''c:3'']" example_image]
  by (simp add: example_NewTag_def)

section \<open>The image squash view and link resolution\<close>

lemma go_index_last:
  "xs \<noteq> [] \<Longrightarrow> go_index xs (int (length xs) - 1) = Return (last xs)"
proof (cases xs rule: rev_cases)
  case Nil
  assume "xs \<noteq> []"
  then show ?thesis using Nil by simp
next
  case (snoc ys y)
  have "nat (int (length ys) + 1 - 1) = length ys" by simp
  then show ?thesis using snoc by (simp add: go_index_def)
qed

text \<open>
  Claim C3. \<open>Image.SquashedTree\<close> never panics; it returns the squashed tree of the
  last (highest-index) layer, and for an image without layers the fresh empty tree
  \<open>NewFileTree()\<close>.
\<close>

theorem SquashedTree_is_top_layer:
  "Image_SquashedTree NewFileTree i =
     Return (if Layers i = [] then Some NewFileTree else SquashedTree (last (Layers i)))"
  using go_index_last[of "Layers i"]
  by (simp add: Image_SquashedTree_def Let_def)

theorem SquashedTree_is_top_layer_witness:
  "Image_SquashedTree [] squashed_image =
     Return (Some [''/etc/app.conf'', ''/bin/app'', ''/etc/app.conf'']) \<and>
   SquashedTree (last (Layers squashed_image)) =
     Some [''/etc/app.conf'', ''/bin/app'', ''/etc/app.conf''] \<and>
   Image_SquashedTree [] empty_image = Return (Some [])"
  using SquashedTree_is_top_layer[of "[]" squashed_image]
    SquashedTree_is_top_layer[of "[]" empty_image]
  by (simp add: example_defs squash_def PushTree_def NewUnionFileTree_def)

text \<open>
  Claim C8. \<open>ResolveLinkByImageSquash\<close> indexes \<open>Layers\<close> at \<open>len(Layers) - 1\<close>
  without a guard. With at least one layer the index is in bounds, it selects the last
  layer, and the link is resolved against that layer's squashed tree. With no layer the
  index is \<open>-1\<close> and the call panics with an index out of range, whereas
  \<open>Image.SquashedTree\<close> on the same image returns the empty tree.
\<close>

theorem ResolveLinkByImageSquash_bounds:
  "(Layers i \<noteq> [] \<longrightarrow>
      go_index (Layers i) (int (length (Layers i)) - 1) = Return (last (Layers i)) \<and>
      ResolveLinkByImageSquash FileTree_File i ref options =
        Return (FileTree_File (SquashedTree (last (Layers i))) (RealPath ref)
                  (FollowBasenameLinks # options))) \<and>
   (Layers i = [] \<longrightarrow>
      ResolveLinkByImageSquash FileTree_File i ref options = Panic (IndexOutOfRange (- 1) 0) \<and>
      Image_SquashedTree NewFileTree i = Return (Some NewFileTree))"
  using go_index_last[of "Layers i"]
  by (auto simp: ResolveLinkByImageSquash_def Image_SquashedTree_def go_index_def)

theorem ResolveLinkByImageSquash_bounds_witness:
  "Layers squashed_image \<noteq> [] \<and>
   ResolveLinkByImageSquash (File_lookup example_resolve) squashed_image bin_ref [] =
     Return (Some \<lparr>ref_id = 0, RealPath = ''/bin/app''\<rparr>, None) \<and>
   Layers empty_image = [] \<and>
   ResolveLinkByImageSquash (File_lookup example_resolve) empty_image bin_ref [] =
     Panic (IndexOutOfRange (- 1) 0) \<and>
   Image_SquashedTree [] empty_image = Return (Some [])"
proof -
  have 1: "Layers squashed_image \<noteq> []"
    by (simp add: example_defs squash_def PushTree_def NewUnionFileTree_def)
  have 2: "Layers empty_image = []" by (simp add: example_defs)
  have 3: "File_lookup example_resolve (SquashedTree (last (Layers squashed_image)))
             (RealPath bin_ref) [FollowBasenameLinks]
           = (Some \<lparr>ref_id = 0, RealPath = ''/bin/app''\<rparr>, None)"
    by (simp add: example_defs squash_def PushTree_def NewUnionFileTree_def File_lookup_def)
  from ResolveLinkByImageSquash_bounds[of squashed_image "File_lookup example_resolve" bin_ref "[]" "[]"]
    ResolveLinkByImageSquash_bounds[of empty_image "File_lookup example_resolve" bin_ref "[]" "[]"]
  show ?thesis using 1 2 3 by simp
qed

text \<open>
  Claim C7. Whatever \<open>File\<close> does with its options, \<open>ResolveLinkByLayerSquash\<close> and
  \<open>ResolveLinkByImageSquash\<close> call it, when the layer index is in range, on the option
  list whose first element is \<open>FollowBasenameLinks\<close> and whose rest is the caller's
  options, unchanged and in the caller's order. With the reading of the options modelled
  from the spec (\<open>File_lookup\<close>), the policies apply as a set, \<open>FollowBasenameLinks\<close>
  always among them: two calls whose option lists have the same elements, in whatever
  order and however often repeated, give the same result.
\<close>

theorem ResolveLink_options:
  "ResolveLinkByLayerSquash FileTree_File i ref layer options =
     (case go_index (Layers i) layer of
        Panic p \<Rightarrow> Panic p
      | Return l \<Rightarrow>
          Return (FileTree_File (SquashedTree l) (RealPath ref)
                    (FollowBasenameLinks # options))) \<and>
   ResolveLinkByImageSquash FileTree_File i ref options =
     (case go_index (Layers i) (int (length (Layers i)) - 1) of
        Panic p \<Rightarrow> Panic p
      | Return l \<Rightarrow>
          Return (FileTree_File (SquashedTree l) (RealPath ref)
                    (FollowBasenameLinks # options))) \<and>
   (set options = set options' \<longrightarrow>
      ResolveLinkByLayerSquash (File_lookup resolve) i ref layer options =
      ResolveLinkByLayerSquash (File_lookup resolve) i ref layer options' \<and>
      ResolveLinkByImageSquash (File_lookup resolve) i ref options =
      ResolveLinkByImageSquash (File_lookup resolve) i ref options') \<and>
   File_lookup resolve tree path (FollowBasenameLinks # options) =
     resolve tree path (insert FollowBasenameLinks (set options))"
proof -
  have A: "ResolveLinkByLayerSquash FileTree_File i ref layer options =
     (case go_index (Layers i) layer of
        Panic p \<Rightarrow> Panic p
      | Return l \<Rightarrow>
          Return (FileTree_File (SquashedTree l) (RealPath ref)
                    (FollowBasenameLinks # options)))"
    by (simp add: ResolveLinkByLayerSquash_def)
  have B: "ResolveLinkByImageSquash FileTree_File i ref options =
     (case go_index (Layers i) (int (length (Layers i)) - 1) of
        Panic p \<Rightarrow> Panic p
      | Return l \<Rightarrow>
          Return (FileTree_File (SquashedTree l) (RealPath ref)
                    (FollowBasenameLinks # options)))"
    by (simp add: ResolveLinkByImageSquash_def)
  have C: "set options = set options' \<longrightarrow>
      ResolveLinkByLayerSquash (File_lookup resolve) i ref layer options =
      ResolveLinkByLayerSquash (File_lookup resolve) i ref layer options' \<and>
      ResolveLinkByImageSquash (File_lookup resolve) i ref options =
      ResolveLinkByImageSquash (File_lookup resolve) i ref options'"
  proof
    assume s: "set options = set options'"
    have "\<And>t p. File_lookup resolve t p ([FollowBasenameLinks] @ options) =
                 File_lookup resolve t p ([FollowBasenameLinks] @ options')"
      by (simp add: File_lookup_def s)
    then show "ResolveLinkByLayerSquash (File_lookup resolve) i ref layer options =
      ResolveLinkByLayerSquash (File_lookup resolve) i ref layer options' \<and>
      ResolveLinkByImageSquash (File_lookup resolve) i ref options =
      ResolveLinkByImageSquash (File_lookup resolve) i ref options'"
      unfolding ResolveLinkByLayerSquash_def ResolveLinkByImageSquash_def Let_def
      by (simp split: go.splits)
  qed
  have D: "File_lookup resolve tree path (FollowBasenameLinks # options) =
     resolve tree path (insert FollowBasenameLinks (set options))"
    by (simp add: File_lookup_def)
  show ?thesis using A B C D by blast
qed

theorem ResolveLink_options_witness:
  "ResolveLinkByLayerSquash first_option_File squashed_image bin_ref 0 [OtherPolicy 1] =
     Return (first_option_File (SquashedTree (Layers squashed_image ! 0)) ''/bin/app''
               [FollowBasenameLinks, OtherPolicy 1]) \<and>
   first_option_File (SquashedTree (Layers squashed_image ! 0)) ''/bin/app''
     [FollowBasenameLinks, OtherPolicy 1] = (Some \<lparr>ref_id = 0, RealPath = ''/bin/app''\<rparr>, None) \<and>
   first_option_File (SquashedTree (Layers squashed_image ! 0)) ''/bin/app''
     [OtherPolicy 1, FollowBasenameLinks] = (None, Some (External ''first option'')) \<and>
   ResolveLinkByImageSquash first_option_File squashed_image bin_ref [OtherPolicy 1] =
     Return (Some \<lparr>ref_id = 0, RealPath = ''/bin/app''\<rparr>, None) \<and>
   set [OtherPolicy 1, OtherPolicy 2] = set [OtherPolicy 2, OtherPolicy 1, OtherPolicy 2] \<and>
   ResolveLinkByImageSquash (File_lookup example_resolve) squashed_image bin_ref
       [OtherPolicy 1, OtherPolicy 2] =
   ResolveLinkByImageSquash (File_lookup example_resolve) squashed_image bin_ref
       [OtherPolicy 2, OtherPolicy 1, OtherPolicy 2]"
proof -
  have s: "set [OtherPolicy 1, OtherPolicy 2] = set [OtherPolicy 2, OtherPolicy 1, OtherPolicy 2]"
    by auto
  have g0: "go_index (Layers squashed_image) 0 = Return (Layers squashed_image ! 0)"
    by (simp add: example_defs squash_def PushTree_def NewUnionFileTree_def go_index_def)
  have g1: "go_index (Layers squashed_image) (int (length (Layers squashed_image)) - 1)
            = Return (Layers squashed_image ! 1)"
    by (simp add: example_defs squash_def PushTree_def NewUnionFileTree_def go_index_def)
  have p: "RealPath bin_ref = ''/bin/app''" by (simp add: bin_ref_def)
  have f0: "first_option_File (SquashedTree (Layers squashed_image ! 0)) ''/bin/app''
              [FollowBasenameLinks, OtherPolicy 1]
            = (Some \<lparr>ref_id = 0, RealPath = ''/bin/app''\<rparr>, None)"
    by (simp add: first_option_File_def)
  have f0': "first_option_File (SquashedTree (Layers squashed_image ! 0)) ''/bin/app''
     [OtherPolicy 1, FollowBasenameLinks] = (None, Some (External ''first option''))"
    by (simp add: first_option_File_def)
  have f1: "first_option_File (SquashedTree (Layers squashed_image ! 1)) ''/bin/app''
              [FollowBasenameLinks, OtherPolicy 1]
            = (Some \<lparr>ref_id = 0, RealPath = ''/bin/app''\<rparr>, None)"
    by (simp add: first_option_File_def)
  note t = ResolveLink_options[where FileTree_File = first_option_File and i = squashed_image
      and ref = bin_ref and layer = 0 and options = "[OtherPolicy 1]"]
  note u = ResolveLink_options[where resolve = example_resolve and i = squashed_image
      and ref = bin_ref and layer = 0
      and options = "[OtherPolicy 1, OtherPolicy 2]"
      and options' = "[OtherPolicy 2, OtherPolicy 1, OtherPolicy 2]"]
  have a: "ResolveLinkByLayerSquash first_option_File squashed_image bin_ref 0 [OtherPolicy 1] =
     Return (first_option_File (SquashedTree (Layers squashed_image ! 0)) ''/bin/app''
               [FollowBasenameLinks, OtherPolicy 1])"
    using t[THEN conjunct1] g0 p by simp
  have b: "ResolveLinkByImageSquash first_option_File squashed_image bin_ref [OtherPolicy 1] =
     Return (Some \<lparr>ref_id = 0, RealPath = ''/bin/app''\<rparr>, None)"
    using t[THEN conjunct2, THEN conjunct1] g1 f1 p by simp
  have c: "ResolveLinkByImageSquash (File_lookup example_resolve) squashed_image bin_ref
       [OtherPolicy 1, OtherPolicy 2] =
     ResolveLinkByImageSquash (File_lookup example_resolve) squashed_image bin_ref
       [OtherPolicy 2, OtherPolicy 1, OtherPolicy 2]"
    using u[THEN conjunct2, THEN conjunct2, THEN conjunct1, THEN mp, OF s] by blast
  show ?thesis using a b c s f0 f0' by blast
qed

section \<open>The squash pass\<close>

lemma squash_loop_length:
  "squash_loop Squash idx lst ls = (err, ls') \<Longrightarrow> length ls' = length ls"
  by (induction ls arbitrary: idx lst err ls')
     (auto split: if_splits sum.splits prod.splits)

lemma squash_loop_Tree:
  "squash_loop Squash idx lst ls = (err, ls') \<Longrightarrow> k < length ls \<Longrightarrow> Tree (ls' ! k) = Tree (ls ! k)"
  by (induction ls arbitrary: idx lst err ls' k)
     (auto split: if_splits sum.splits prod.splits simp: nth_Cons')

lemma squash_loop_err:
  "squash_loop Squash idx lst ls = (err, ls') \<Longrightarrow> err = None \<or> (\<exists>j e. err = Some (FailedToSquash j e))"
  by (induction ls arbitrary: idx lst err ls')
     (auto split: if_splits sum.splits prod.splits)

lemma squash_loop_ok:
  "squash_loop Squash (Suc n) lst ls = (None, ls') \<Longrightarrow> k < length ls \<Longrightarrow>
     Squash [if k = 0 then lst else SquashedTree (ls' ! (k - 1)), Tree (ls ! k)] = Inr (SquashedTree (ls' ! k))"
proof (induction ls arbitrary: n lst ls' k)
  case Nil
  then show ?case by simp
next
  case (Cons l ls)
  from Cons.prems(1) obtain sq rest' where
    sq: "Squash [lst, Tree l] = Inr sq"
    and rest: "squash_loop Squash (Suc (Suc n)) sq ls = (None, rest')"
    and ls': "ls' = l\<lparr>SquashedTree := sq\<rparr> # rest'"
    by (auto simp: PushTree_def NewUnionFileTree_def split: sum.splits prod.splits)
  show ?case
  proof (cases k)
    case 0
    then show ?thesis using sq ls' by simp
  next
    case (Suc k')
    then have "k' < length ls" using Cons.prems(2) by simp
    from Cons.IH[OF rest this] show ?thesis using Suc ls' by (cases k') simp_all
  qed
qed

lemma squash_loop_failed:
  "squash_loop Squash (Suc n) lst ls = (Some (FailedToSquash j e), ls') \<Longrightarrow>
     Suc n \<le> j \<and> j - Suc n < length ls \<and>
     (\<forall>k<j - Suc n.
        Squash [if k = 0 then lst else SquashedTree (ls' ! (k - 1)), Tree (ls ! k)]
          = Inr (SquashedTree (ls' ! k))) \<and>
     Squash [if j - Suc n = 0 then lst else SquashedTree (ls' ! (j - Suc n - 1)),
             Tree (ls ! (j - Suc n))] = Inl e \<and>
     (\<forall>k. j - Suc n \<le> k \<and> k < length ls \<longrightarrow> ls' ! k = ls ! k)"
proof (induction ls arbitrary: n lst ls')
  case Nil
  then show ?case by simp
next
  case (Cons l ls)
  show ?case
  proof (cases "Squash [lst, Tree l]")
    case (Inl e')
    then have "j = Suc n" "e' = e" "ls' = l # ls"
      using Cons.prems by (auto simp: PushTree_def NewUnionFileTree_def)
    then show ?thesis using Inl by simp
  next
    case (Inr sq)
    then obtain rest' where
      rest: "squash_loop Squash (Suc (Suc n)) sq ls = (Some (FailedToSquash j e), rest')"
      and ls': "ls' = l\<lparr>SquashedTree := sq\<rparr> # rest'"
      using Cons.prems by (auto simp: PushTree_def NewUnionFileTree_def split: prod.splits)
    note IH = Cons.IH[OF rest]
    from IH have j: "Suc (Suc n) \<le> j" and jl: "j - Suc (Suc n) < length ls" by simp_all
    then obtain m where m: "j - Suc n = Suc m" "j - Suc (Suc n) = m" by (cases "j - Suc n") auto
    have 1: "\<forall>k<Suc m.
        Squash [if k = 0 then lst else SquashedTree (ls' ! (k - 1)), Tree ((l # ls) ! k)]
          = Inr (SquashedTree (ls' ! k))"
    proof (intro allI impI)
      fix k assume k: "k < Suc m"
      show "Squash [if k = 0 then lst else SquashedTree (ls' ! (k - 1)), Tree ((l # ls) ! k)]
          = Inr (SquashedTree (ls' ! k))"
      proof (cases k)
        case 0
        then show ?thesis using Inr ls' by simp
      next
        case (Suc k')
        then have "k' < m" using k by simp
        with IH m have "Squash [if k' = 0 then sq else SquashedTree (rest' ! (k' - 1)), Tree (ls ! k')]
          = Inr (SquashedTree (rest' ! k'))" by simp
        then show ?thesis using Suc ls' by (cases k') simp_all
      qed
    qed
    have 2: "Squash [SquashedTree (ls' ! m), Tree (ls ! m)] = Inl e"
      using IH m ls' by (cases m) simp_all
    have 3: "\<forall>k. Suc m \<le> k \<and> k < length (l # ls) \<longrightarrow> ls' ! k = (l # ls) ! k"
    proof (intro allI impI)
      fix k assume k: "Suc m \<le> k \<and> k < length (l # ls)"
      then obtain k' where k': "k = Suc k'" "m \<le> k'" "k' < length ls" by (cases k) auto
      with IH m have "rest' ! k' = ls ! k'" by simp
      then show "ls' ! k = (l # ls) ! k" using k' ls' by simp
    qed
    show ?thesis using j jl 1 2 3 m by simp
  qed
qed

text \<open>
  Claim C1. The squash pass is incremental. It keeps the number of layers and every
  layer's own tree, and its only error is a failed union, reported with the index of
  the layer. When it succeeds, the squashed tree of layer 0 is the layer's own tree and,
  for every \<open>k \<ge> 1\<close>, the squashed tree of layer \<open>k\<close> is the result of \<open>Squash\<close> on
  exactly two trees: the squashed tree of layer \<open>k - 1\<close> and the own tree of layer \<open>k\<close>.
  When the union fails at layer \<open>j\<close>, the same holds for every layer below \<open>j\<close>, the
  failing union is the one of the squashed tree of layer \<open>j - 1\<close> with the own tree of
  layer \<open>j\<close>, and the layers from \<open>j\<close> on are left as they were: the layers are
  squashed in increasing index order.
\<close>

theorem squash_incremental:
  "squash Squash i = (err, i') \<Longrightarrow>
     length (Layers i') = length (Layers i) \<and>
     (\<forall>k<length (Layers i). Tree (Layers i' ! k) = Tree (Layers i ! k)) \<and>
     (err = None \<or> (\<exists>j e. err = Some (FailedToSquash j e))) \<and>
     (err = None \<longrightarrow>
        (Layers i \<noteq> [] \<longrightarrow> SquashedTree (Layers i' ! 0) = Tree (Layers i ! 0)) \<and>
        (\<forall>k. 1 \<le> k \<and> k < length (Layers i) \<longrightarrow>
           Squash [SquashedTree (Layers i' ! (k - 1)), Tree (Layers i ! k)]
             = Inr (SquashedTree (Layers i' ! k)))) \<and>
     (\<forall>j e. err = Some (FailedToSquash j e) \<longrightarrow>
        1 \<le> j \<and> j < length (Layers i) \<and>
        SquashedTree (Layers i' ! 0) = Tree (Layers i ! 0) \<and>
        (\<forall>k. 1 \<le> k \<and> k < j \<longrightarrow>
           Squash [SquashedTree (Layers i' ! (k - 1)), Tree (Layers i ! k)]
             = Inr (SquashedTree (Layers i' ! k))) \<and>
        Squash [SquashedTree (Layers i' ! (j - 1)), Tree (Layers i ! j)] = Inl e \<and>
        (\<forall>k. j \<le> k \<and> k < length (Layers i) \<longrightarrow> Layers i' ! k = Layers i ! k))"
proof (cases "Layers i")
  case Nil
  assume "squash Squash i = (err, i')"
  then show ?thesis using Nil by (auto simp: squash_def)
next
  case (Cons l ls)
  assume a: "squash Squash i = (err, i')"
  then obtain rest' where
    rest: "squash_loop Squash (Suc 0) (Tree l) ls = (err, rest')"
    and L': "Layers i' = l\<lparr>SquashedTree := Tree l\<rparr> # rest'"
    using Cons by (auto simp: squash_def split: prod.splits)
  have len: "length rest' = length ls" by (rule squash_loop_length[OF rest])
  have A: "length (Layers i') = length (Layers i)" using L' Cons len by simp
  have B: "\<forall>k<length (Layers i). Tree (Layers i' ! k) = Tree (Layers i ! k)"
  proof (intro allI impI)
    fix k assume "k < length (Layers i)"
    then show "Tree (Layers i' ! k) = Tree (Layers i ! k)"
      using squash_loop_Tree[OF rest, of "k - 1"] L' Cons by (cases k) simp_all
  qed
  have E: "err = None \<or> (\<exists>j e. err = Some (FailedToSquash j e))"
    by (rule squash_loop_err[OF rest])
  have C: "err = None \<longrightarrow>
        (Layers i \<noteq> [] \<longrightarrow> SquashedTree (Layers i' ! 0) = Tree (Layers i ! 0)) \<and>
        (\<forall>k. 1 \<le> k \<and> k < length (Layers i) \<longrightarrow>
           Squash [SquashedTree (Layers i' ! (k - 1)), Tree (Layers i ! k)]
             = Inr (SquashedTree (Layers i' ! k)))"
  proof (intro impI conjI allI)
    show "SquashedTree (Layers i' ! 0) = Tree (Layers i ! 0)" using L' Cons by simp
  next
    fix k assume e: "err = None" and k: "1 \<le> k \<and> k < length (Layers i)"
    then obtain k' where k': "k = Suc k'" "k' < length ls" using Cons by (cases k) auto
    from squash_loop_ok[OF rest[unfolded e] k'(2)]
    show "Squash [SquashedTree (Layers i' ! (k - 1)), Tree (Layers i ! k)]
             = Inr (SquashedTree (Layers i' ! k))"
      using k' L' Cons by (cases k') simp_all
  qed
  have D: "\<forall>j e. err = Some (FailedToSquash j e) \<longrightarrow>
        1 \<le> j \<and> j < length (Layers i) \<and>
        SquashedTree (Layers i' ! 0) = Tree (Layers i ! 0) \<and>
        (\<forall>k. 1 \<le> k \<and> k < j \<longrightarrow>
           Squash [SquashedTree (Layers i' ! (k - 1)), Tree (Layers i ! k)]
             = Inr (SquashedTree (Layers i' ! k))) \<and>
        Squash [SquashedTree (Layers i' ! (j - 1)), Tree (Layers i ! j)] = Inl e \<and>
        (\<forall>k. j \<le> k \<and> k < length (Layers i) \<longrightarrow> Layers i' ! k = Layers i ! k)"
  proof (intro allI impI)
    fix j e assume e: "err = Some (FailedToSquash j e)"
    note F = squash_loop_failed[OF rest[unfolded e]]
    from F obtain m where m: "j = Suc m" "m < length ls" by (cases j) auto
    have 1: "\<forall>k. 1 \<le> k \<and> k < j \<longrightarrow>
           Squash [SquashedTree (Layers i' ! (k - 1)), Tree (Layers i ! k)]
             = Inr (SquashedTree (Layers i' ! k))"
    proof (intro allI impI)
      fix k assume "1 \<le> k \<and> k < j"
      then obtain k' where k': "k = Suc k'" "k' < m" using m by (cases k) auto
      with F m have "Squash [if k' = 0 then Tree l else SquashedTree (rest' ! (k' - 1)), Tree (ls ! k')]
          = Inr (SquashedTree (rest' ! k'))" by simp
      then show "Squash [SquashedTree (Layers i' ! (k - 1)), Tree (Layers i ! k)]
             = Inr (SquashedTree (Layers i' ! k))"
        using k' L' Cons by (cases k') simp_all
    qed
    have 2: "Squash [SquashedTree (Layers i' ! (j - 1)), Tree (Layers i ! j)] = Inl e"
      using F m L' Cons by (cases m) simp_all
    have 3: "\<forall>k. j \<le> k \<and> k < length (Layers i) \<longrightarrow> Layers i' ! k = Layers i ! k"
    proof (intro allI impI)
      fix k assume "j \<le> k \<and> k < length (Layers i)"
      then obtain k' where k': "k = Suc k'" "m \<le> k'" "k' < length ls" using m Cons by (cases k) auto
      with F m have "rest' ! k' = ls ! k'" by simp
      then show "Layers i' ! k = Layers i ! k" using k' L' Cons by simp
    qed
    show "1 \<le> j \<and> j < length (Layers i) \<and>
        SquashedTree (Layers i' ! 0) = Tree (Layers i ! 0) \<and>
        (\<forall>k. 1 \<le> k \<and> k < j \<longrightarrow>
           Squash [SquashedTree (Layers i' ! (k - 1)), Tree (Layers i ! k)]
             = Inr (SquashedTree (Layers i' ! k))) \<and>
        Squash [SquashedTree (Layers i' ! (j - 1)), Tree (Layers i ! j)] = Inl e \<and>
        (\<forall>k. j \<le> k \<and> k < length (Layers i) \<longrightarrow> Layers i' ! k = Layers i ! k)"
      using m 1 2 3 L' Cons by simp
  qed
  show ?thesis using A B C D E by blast
qed

theorem squash_incremental_witness:
  "squash example_Squash example_image = (None, squashed_image) \<and>
   SquashedTree (Layers squashed_image ! 0) = Tree (Layers example_image ! 0) \<and>
   example_Squash [SquashedTree (Layers squashed_image ! 0), Tree (Layers example_image ! 1)]
     = Inr (SquashedTree (Layers squashed_image ! 1)) \<and>
   squash example_Squash failing_image =
     (Some (FailedToSquash 2 (External ''squash'')), partly_squashed_image) \<and>
   example_Squash [SquashedTree (Layers partly_squashed_image ! 0), Tree (Layers failing_image ! 1)]
     = Inr (SquashedTree (Layers partly_squashed_image ! 1)) \<and>
   example_Squash [SquashedTree (Layers partly_squashed_image ! 1), Tree (Layers failing_image ! 2)]
     = Inl (External ''squash'') \<and>
   Layers partly_squashed_image ! 2 = Layers failing_image ! 2"
proof -
  have ok: "squash example_Squash example_image = (None, squashed_image)"
    by (simp add: example_defs squash_defs)
  have bad: "squash example_Squash failing_image =
     (Some (FailedToSquash 2 (External ''squash'')), partly_squashed_image)"
    by (simp add: example_defs squash_defs)
  have len: "length (Layers example_image) = 2" "length (Layers failing_image) = 3"
    by (simp_all add: example_defs squash_defs)
  note t1 = squash_incremental[OF ok]
  note t2 = squash_incremental[OF bad]
  have a: "SquashedTree (Layers squashed_image ! 0) = Tree (Layers example_image ! 0)"
    using t1 len by auto
  have b: "example_Squash [SquashedTree (Layers squashed_image ! (1 - 1)), Tree (Layers example_image ! 1)]
     = Inr (SquashedTree (Layers squashed_image ! 1))"
    using t1 len by auto
  from t2 have f: "(\<forall>k. 1 \<le> k \<and> k < 2 \<longrightarrow>
           example_Squash [SquashedTree (Layers partly_squashed_image ! (k - 1)), Tree (Layers failing_image ! k)]
             = Inr (SquashedTree (Layers partly_squashed_image ! k))) \<and>
        example_Squash [SquashedTree (Layers partly_squashed_image ! (2 - 1)), Tree (Layers failing_image ! 2)] = Inl (External ''squash'') \<and>
        (\<forall>k. 2 \<le> k \<and> k < length (Layers failing_image) \<longrightarrow> Layers partly_squashed_image ! k = Layers failing_image ! k)"
    by blast
  have c: "example_Squash [SquashedTree (Layers partly_squashed_image ! (1 - 1)), Tree (Layers failing_image ! 1)]
     = Inr (SquashedTree (Layers partly_squashed_image ! 1))"
    using f by auto
  have d: "example_Squash [SquashedTree (Layers partly_squashed_image ! (2 - 1)), Tree (Layers failing_image ! 2)]
     = Inl (External ''squash'')"
    using f by blast
  have e: "Layers partly_squashed_image ! 2 = Layers failing_image ! 2"
    using f len by auto
  show ?thesis using ok bad a b c d e by simp
qed

section \<open>The content distribution pass\<close>

lemma send_keys_simps [simp]:
  "send_keys [] = []"
  "send_keys (e # ev) = send_key e @ send_keys ev"
  "send_keys (ev @ ev2) = send_keys ev @ send_keys ev2"
  by (simp_all add: send_keys_def)

lemma sends_to_simps [simp]:
  "sends_to idx [] = 0"
  "sends_to idx (ev @ ev2) = sends_to idx ev + sends_to idx ev2"
  "sends_to idx (e # ev) = (if sent_to idx e then 1 else 0) + sends_to idx ev"
  by (simp_all add: sends_to_def)

lemma prepare_calls_append [simp]:
  "prepare_calls n index (ev @ ev2) = prepare_calls n index ev + prepare_calls n index ev2"
  by (simp add: prepare_calls_def)

lemma observers_loop_cases:
  assumes "observers_loop prep n index entry idx (ob # rest) r c ev = (st, c', ev')"
  obtains
    (skip) "\<not> IsInterestedIn ob (File entry)"
      "observers_loop prep n index entry (Suc idx) rest r c ev = (st, c', ev')"
  | (fail) err r' where "IsInterestedIn ob (File entry)"
      "prep c (File entry) r = (Inl err, c', r')" "st = Failed err"
      "ev' = ev @ [PrepareContentReader n index idx (File entry) (Inl err)]"
  | (block) rdr r' where "IsInterestedIn ob (File entry)"
      "prep c (File entry) r = (Inr rdr, c', r')"
      "\<not> accepts ob (sends_to idx ev)" "st = Blocked"
      "ev' = ev @ [PrepareContentReader n index idx (File entry) (Inr rdr)]"
  | (send) rdr c1 r' where "IsInterestedIn ob (File entry)"
      "prep c (File entry) r = (Inr rdr, c1, r')"
      "accepts ob (sends_to idx ev)"
      "observers_loop prep n index entry (Suc idx) rest r' c1
         (ev @ [PrepareContentReader n index idx (File entry) (Inr rdr),
                Send n index idx \<lparr>Entry = entry, Content = rdr\<rparr>]) = (st, c', ev')"
proof (cases "IsInterestedIn ob (File entry)")
  case False
  then show ?thesis using assms skip by simp
next
  case True
  obtain res c1 r' where p: "prep c (File entry) r = (res, c1, r')"
    by (cases "prep c (File entry) r") auto
  show ?thesis
  proof (cases res)
    case (Inl err)
    then show ?thesis using assms True p fail by simp
  next
    case (Inr rdr)
    show ?thesis
    proof (cases "accepts ob (sends_to idx ev)")
      case True
      then show ?thesis using assms \<open>IsInterestedIn ob (File entry)\<close> p Inr send[of rdr c1 r']
        by (simp add: Let_def)
    next
      case False
      then show ?thesis using assms \<open>IsInterestedIn ob (File entry)\<close> p Inr block[of rdr r']
        by (simp add: Let_def)
    qed
  qed
qed

lemma key_before_trans: "key_before a b \<Longrightarrow> key_before b c \<Longrightarrow> key_before a c"
  by (auto simp: key_before_def entry_before_def)

lemma key_le_before: "key_le a b \<Longrightarrow> key_before b c \<Longrightarrow> key_before a c"
  by (auto simp: key_le_def intro: key_before_trans)

lemma key_before_le: "key_before a b \<Longrightarrow> key_le b c \<Longrightarrow> key_before a c"
  by (auto simp: key_le_def intro: key_before_trans)

lemma key_le_trans: "key_le a b \<Longrightarrow> key_le b c \<Longrightarrow> key_le a c"
  by (auto simp: key_le_def intro: key_before_trans)

lemma key_le_refl [simp]: "key_le a a"
  by (simp add: key_le_def)

lemma answered_extend:
  assumes old: "answered full Done ev"
    and new: "\<And>pre' n index idx ref rdr suf.
      new = pre' @ PrepareContentReader n index idx ref (Inr rdr) # suf \<Longrightarrow>
      idx < length full \<and>
      (if accepts (full ! idx) (sends_to idx (ev @ pre'))
       then \<exists>ob suf'. suf = Send n index idx ob # suf' \<and> Content ob = rdr \<and> File (Entry ob) = ref
       else st = Blocked \<and> suf = [])"
  shows "answered full st (ev @ new)"
  unfolding answered_def
proof (intro allI impI)
  fix pre n index idx ref rdr suf
  let ?P = "PrepareContentReader n index idx ref (Inr rdr)"
  assume eq: "ev @ new = pre @ ?P # suf"
  from eq[unfolded append_eq_append_conv2] obtain us where
    us: "ev = pre @ us \<and> us @ new = ?P # suf \<or> ev @ us = pre \<and> new = us @ ?P # suf"
    by blast
  have "(\<exists>us. ev = pre @ ?P # us \<and> suf = us @ new) \<or>
        (\<exists>us. pre = ev @ us \<and> new = us @ ?P # suf)"
  proof (cases "ev @ us = pre \<and> new = us @ ?P # suf")
    case True
    then show ?thesis by blast
  next
    case False
    with us have a: "ev = pre @ us" "us @ new = ?P # suf" by blast+
    show ?thesis
    proof (cases us)
      case Nil
      with a have "pre = ev @ []" "new = [] @ ?P # suf" by simp_all
      then show ?thesis by blast
    next
      case (Cons u us')
      with a have "ev = pre @ ?P # us'" "suf = us' @ new" by simp_all
      then show ?thesis by blast
    qed
  qed
  then consider (old) us where "ev = pre @ ?P # us" "suf = us @ new"
    | (new) us where "pre = ev @ us" "new = us @ ?P # suf"
    by blast
  then show "idx < length full \<and>
        (if accepts (full ! idx) (sends_to idx pre)
         then \<exists>ob suf'. suf = Send n index idx ob # suf' \<and> Content ob = rdr \<and> File (Entry ob) = ref
         else st = Blocked \<and> suf = [])"
  proof cases
    case old
    from \<open>answered full Done ev\<close>[unfolded answered_def, rule_format, OF old(1)]
    show ?thesis using old(2) by (auto split: if_splits)
  next
    case new
    from assms(2)[OF new(2)] show ?thesis unfolding new(1) .
  qed
qed

lemma single_decomp: "[x] = pre @ y # suf \<longleftrightarrow> pre = [] \<and> y = x \<and> suf = []"
  by (cases pre) auto

lemma pair_decomp:
  "[x, z] = pre @ y # suf \<longleftrightarrow>
     (pre = [] \<and> y = x \<and> suf = [z]) \<or> (pre = [x] \<and> y = z \<and> suf = [])"
proof (cases pre)
  case Nil
  then show ?thesis by auto
next
  case (Cons p ps)
  then show ?thesis by (cases ps) auto
qed

lemma answered_Done_any: "answered full Done ev \<Longrightarrow> answered full st ev"
  using answered_extend[of full ev "[]" st] by simp

lemma answered_no_prepare:
  assumes "answered full Done ev" "\<And>n index idx ref rdr. PrepareContentReader n index idx ref (Inr rdr) \<notin> set new"
  shows "answered full st (ev @ new)"
proof (rule answered_extend[OF assms(1)])
  fix pre' n index idx ref rdr suf
  assume "new = pre' @ PrepareContentReader n index idx ref (Inr rdr) # suf"
  then have "PrepareContentReader n index idx ref (Inr rdr) \<in> set new" by simp
  with assms(2) show "idx < length full \<and>
      (if accepts (full ! idx) (sends_to idx (ev @ pre'))
       then \<exists>ob suf'. suf = Send n index idx ob # suf' \<and> Content ob = rdr \<and> File (Entry ob) = ref
       else st = Blocked \<and> suf = [])" by blast
qed

lemma run_ok_refl: "st \<noteq> Blocked \<Longrightarrow> run_ok full ls lo hi ev st ev"
  by (simp add: run_ok_def answered_Done_any)

lemma run_ok_weaken:
  "run_ok full ls lo hi ev st ev' \<Longrightarrow> key_le lo' lo \<Longrightarrow> key_le hi hi' \<Longrightarrow>
   run_ok full ls lo' hi' ev st ev'"
  unfolding run_ok_def by (blast intro: key_le_trans key_before_le)

lemma run_ok_trans:
  assumes 1: "run_ok full ls lo mid ev Done ev1" and 2: "run_ok full ls mid hi ev1 st ev2"
    and "key_le lo mid" "key_le mid hi"
  shows "run_ok full ls lo hi ev st ev2"
proof -
  from 1 obtain new1 where n1: "ev1 = ev @ new1" "list_all pipeline_event new1"
    "sorted_wrt key_before (send_keys new1)"
    "\<forall>k\<in>set (send_keys new1). key_le lo k \<and> key_before k mid"
    "within_receives full ev \<longrightarrow> within_receives full ev1"
    "list_all (send_located ls full) new1"
    "answered full Done ev \<longrightarrow> answered full Done ev1"
    unfolding run_ok_def by blast
  from 2 obtain new2 where n2: "ev2 = ev1 @ new2" "list_all pipeline_event new2"
    "sorted_wrt key_before (send_keys new2)"
    "\<forall>k\<in>set (send_keys new2). key_le mid k \<and> key_before k hi"
    "within_receives full ev1 \<longrightarrow> within_receives full ev2"
    "st = Blocked \<longrightarrow> blocked_at full ev2"
    "list_all (send_located ls full) new2"
    "answered full Done ev1 \<longrightarrow> answered full st ev2"
    unfolding run_ok_def by blast
  have a: "ev2 = ev @ (new1 @ new2)" using n1 n2 by simp
  have b: "list_all pipeline_event (new1 @ new2)" using n1 n2 by simp
  have c: "sorted_wrt key_before (send_keys (new1 @ new2))"
    using n1(3,4) n2(3,4) by (auto simp: sorted_wrt_append intro: key_before_le)
  have d: "\<forall>k\<in>set (send_keys (new1 @ new2)). key_le lo k \<and> key_before k hi"
    using n1(4) n2(4) assms(3,4) by (auto intro: key_le_trans key_before_le)
  have e: "list_all (send_located ls full) (new1 @ new2)" using n1 n2 by simp
  show ?thesis unfolding run_ok_def using a b c d e n1(5,7) n2(5,6,8) by blast
qed

lemma drop_Cons_nth:
  "drop idx full = ob # rest \<Longrightarrow> idx < length full \<and> full ! idx = ob \<and> drop (Suc idx) full = rest"
  by (metis Cons_nth_drop_Suc drop_all list.distinct(1) list.inject not_le_imp_less)

lemma run_ok_failed_prepare:
  "run_ok full ls lo hi ev (Failed err)
     (ev @ [PrepareContentReader n index idx ref (Inl err')])"
  unfolding run_ok_def
proof (rule exI[of _ "[PrepareContentReader n index idx ref (Inl err')]"], intro conjI)
  show "answered full Done ev \<longrightarrow>
        answered full (Failed err) (ev @ [PrepareContentReader n index idx ref (Inl err')])"
    by (auto intro: answered_no_prepare)
qed (auto simp: within_receives_def)

lemma run_ok_refused:
  assumes "idx < length full" "\<not> accepts (full ! idx) (sends_to idx ev)"
  shows "run_ok full ls lo hi ev Blocked
     (ev @ [PrepareContentReader n index idx ref (Inr rdr)])"
  unfolding run_ok_def
proof (rule exI[of _ "[PrepareContentReader n index idx ref (Inr rdr)]"], intro conjI)
  show "answered full Done ev \<longrightarrow>
        answered full Blocked (ev @ [PrepareContentReader n index idx ref (Inr rdr)])"
  proof
    assume old: "answered full Done ev"
    show "answered full Blocked (ev @ [PrepareContentReader n index idx ref (Inr rdr)])"
      by (rule answered_extend[OF old])
         (use assms in \<open>auto simp: single_decomp pair_decomp\<close>)
  qed
  show "Blocked = Blocked \<longrightarrow> blocked_at full (ev @ [PrepareContentReader n index idx ref (Inr rdr)])"
    using assms by (auto simp: blocked_at_def)
qed (auto simp: within_receives_def)

lemma run_ok_layer_content:
  "st \<noteq> Blocked \<Longrightarrow> run_ok full ls lo hi ev st (ev @ [LayerContent n])"
  unfolding run_ok_def
  by (rule exI[of _ "[LayerContent n]"]) (auto simp: within_receives_def intro: answered_no_prepare)

lemma run_ok_send:
  assumes "idx < length full" "accepts (full ! idx) (sends_to idx ev)"
    and "send_located ls full (Send n index idx ob)" "File (Entry ob) = ref"
  shows "run_ok full ls (n, index, idx) (n, index, Suc idx) ev Done
           (ev @ [PrepareContentReader n index idx ref (Inr (Content ob)), Send n index idx ob])"
  unfolding run_ok_def
proof (rule exI[of _ "[PrepareContentReader n index idx ref (Inr (Content ob)), Send n index idx ob]"],
    intro conjI)
  show "within_receives full ev \<longrightarrow>
        within_receives full
          (ev @ [PrepareContentReader n index idx ref (Inr (Content ob)), Send n index idx ob])"
    using assms by (auto simp: within_receives_def accepts_def)
  show "answered full Done ev \<longrightarrow>
        answered full Done
          (ev @ [PrepareContentReader n index idx ref (Inr (Content ob)), Send n index idx ob])"
  proof
    assume old: "answered full Done ev"
    show "answered full Done
          (ev @ [PrepareContentReader n index idx ref (Inr (Content ob)), Send n index idx ob])"
      by (rule answered_extend[OF old])
         (use assms in \<open>auto simp: single_decomp pair_decomp\<close>)
  qed
  show "list_all (send_located ls full)
          [PrepareContentReader n index idx ref (Inr (Content ob)), Send n index idx ob]"
    using assms(3) by simp
qed (auto simp: key_before_def entry_before_def)

lemma observers_loop_run_ok:
  assumes loc: "n < length ls" "content (ls ! n) = Inr es" "index < length es"
    "es ! index = Inr (header, r0)" "Name header = TarHeaderName entry"
  shows "drop idx full = obs \<Longrightarrow>
   observers_loop prep n index entry idx obs r c ev = (st, c', ev') \<Longrightarrow>
   run_ok full ls (n, index, idx) (n, index, length full) ev st ev'"
proof (induction obs arbitrary: idx r c ev)
  case Nil
  then show ?case by (simp add: run_ok_refl)
next
  case (Cons ob rest)
  from drop_Cons_nth[OF Cons.prems(1)]
  have idx: "idx < length full" and ob: "full ! idx = ob" and rest: "drop (Suc idx) full = rest"
    by simp_all
  have le1: "key_le (n, index, idx) (n, index, Suc idx)"
    by (simp add: key_le_def key_before_def entry_before_def)
  have le2: "key_le (n, index, Suc idx) (n, index, length full)"
    using idx by (auto simp: key_le_def key_before_def entry_before_def)
  from Cons.prems(2) show ?case
  proof (cases rule: observers_loop_cases)
    case skip
    from Cons.IH[OF rest skip(2)] show ?thesis
      by (rule run_ok_weaken) (simp_all add: le1)
  next
    case (fail err r')
    then show ?thesis by (simp add: run_ok_failed_prepare)
  next
    case (block rdr r')
    then show ?thesis using idx ob by (simp add: run_ok_refused)
  next
    case (send rdr c1 r')
    have "send_located ls full (Send n index idx \<lparr>Entry = entry, Content = rdr\<rparr>)"
      using idx ob send(1) loc by auto
    then have 1: "run_ok full ls (n, index, idx) (n, index, Suc idx) ev Done
           (ev @ [PrepareContentReader n index idx (File entry) (Inr rdr),
                  Send n index idx \<lparr>Entry = entry, Content = rdr\<rparr>])"
      using idx ob send(3)
        run_ok_send[of idx full ev ls n index "\<lparr>Entry = entry, Content = rdr\<rparr>" "File entry"]
      by simp
    from run_ok_trans[OF 1 Cons.IH[OF rest send(4)] le1 le2] show ?thesis .
  qed
qed

lemma tarVisitor_run_ok:
  assumes "tarVisitor get prep full n (ls ! n) index header r c ev = (st, c', ev')"
    and loc: "n < length ls" "content (ls ! n) = Inr es" "index < length es"
    "es ! index = Inr (header, r)"
  shows "run_ok full ls (n, index, 0) (n, Suc index, 0) ev st ev'"
proof (cases "get c (Digest (ls ! n)) index")
  case (Inl err)
  then show ?thesis using assms(1) by (auto simp: tarVisitor_def intro: run_ok_refl)
next
  case (Inr entry)
  show ?thesis
  proof (cases "TarHeaderName entry \<noteq> Name header")
    case True
    then show ?thesis using assms(1) Inr by (auto simp: tarVisitor_def intro: run_ok_refl)
  next
    case False
    then have o: "observers_loop prep n index entry 0 full r c ev = (st, c', ev')"
      using assms(1) Inr by (simp add: tarVisitor_def)
    have nm: "Name header = TarHeaderName entry" using False by simp
    have "run_ok full ls (n, index, 0) (n, index, length full) ev st ev'"
      by (rule observers_loop_run_ok[OF loc nm _ o]) simp
    then show ?thesis
      by (rule run_ok_weaken) (simp_all add: key_le_def key_before_def entry_before_def)
  qed
qed

lemma TarIterator_run_ok:
  assumes v: "\<And>index header r c ev st c' ev'.
      index < length es \<Longrightarrow> es ! index = Inr (header, r) \<Longrightarrow>
      visitor index header r c ev = (st, c', ev') \<Longrightarrow>
      run_ok full ls (n, index, 0) (n, Suc index, 0) ev st ev'"
  shows "drop index es = es' \<Longrightarrow> TarIterator visitor index es' c ev = (st, c', ev') \<Longrightarrow>
         run_ok full ls (n, index, 0) (Suc n, 0, 0) ev st ev'"
proof (induction es' arbitrary: index c ev)
  case Nil
  then show ?case by (simp add: run_ok_refl)
next
  case (Cons e es')
  from drop_Cons_nth[OF Cons.prems(1)]
  have index: "index < length es" and e: "es ! index = e" and rest: "drop (Suc index) es = es'"
    by simp_all
  show ?case
  proof (cases e)
    case (Inl err)
    then show ?thesis using Cons.prems by (auto intro: run_ok_refl)
  next
    case (Inr hr)
    obtain header r where hr: "hr = (header, r)" by (cases hr)
    obtain st1 c1 ev1 where v1: "visitor index header r c ev = (st1, c1, ev1)"
      by (cases "visitor index header r c ev") auto
    have le1: "key_le (n, index, 0) (n, Suc index, 0)"
      by (simp add: key_le_def key_before_def entry_before_def)
    have le2: "key_le (n, Suc index, 0) (Suc n, 0, 0)"
      by (simp add: key_le_def key_before_def entry_before_def)
    have at: "es ! index = Inr (header, r)" using e Inr hr by simp
    show ?thesis
    proof (cases "st1 = Done")
      case True
      then have "TarIterator visitor (Suc index) es' c1 ev1 = (st, c', ev')"
        using Cons.prems Inr hr v1 by simp
      from run_ok_trans[OF v[OF index at v1[unfolded True]] Cons.IH[OF rest this] le1 le2]
      show ?thesis .
    next
      case False
      then have "st = st1" "ev' = ev1" using Cons.prems Inr hr v1 by simp_all
      then show ?thesis using v[OF index at v1] le2 by (auto intro: run_ok_weaken)
    qed
  qed
qed

lemma layers_loop_run_ok:
  "drop n ls = ls' \<Longrightarrow> layers_loop get prep full n ls' c ev = (st, c', ev') \<Longrightarrow>
   run_ok full ls (n, 0, 0) (length ls, 0, 0) ev st ev'"
proof (induction ls' arbitrary: n c ev)
  case Nil
  then show ?case by (simp add: run_ok_refl)
next
  case (Cons l ls')
  from drop_Cons_nth[OF Cons.prems(1)]
  have n: "n < length ls" and l: "ls ! n = l" and rest: "drop (Suc n) ls = ls'"
    by simp_all
  have le1: "key_le (n, 0, 0) (Suc n, 0, 0)"
    by (simp add: key_le_def key_before_def entry_before_def)
  have le2: "key_le (Suc n, 0, 0) (length ls, 0, 0)"
    using n by (auto simp: key_le_def key_before_def entry_before_def)
  show ?case
  proof (cases "content l")
    case (Inl err)
    then show ?thesis using Cons.prems by (auto intro: run_ok_layer_content)
  next
    case (Inr es)
    obtain st1 c1 ev1 where t: "TarIterator (tarVisitor get prep full n (ls ! n)) 0 es c
        (ev @ [LayerContent n]) = (st1, c1, ev1)"
      by (cases "TarIterator (tarVisitor get prep full n (ls ! n)) 0 es c (ev @ [LayerContent n])") auto
    have 0: "run_ok full ls (n, 0, 0) (n, 0, 0) ev Done (ev @ [LayerContent n])"
      by (simp add: run_ok_layer_content)
    have c: "content (ls ! n) = Inr es" using Inr l by simp
    have 1: "run_ok full ls (n, 0, 0) (Suc n, 0, 0) (ev @ [LayerContent n]) st1 ev1"
      by (rule TarIterator_run_ok[OF tarVisitor_run_ok[OF _ n c] _ t]) simp_all
    have 01: "run_ok full ls (n, 0, 0) (Suc n, 0, 0) ev st1 ev1"
      by (rule run_ok_trans[OF 0 1]) (simp_all add: le1)
    show ?thesis
    proof (cases "st1 = Done")
      case True
      then have "layers_loop get prep full (Suc n) ls' c1 ev1 = (st, c', ev')"
        using Cons.prems Inr t l by simp
      from run_ok_trans[OF 01[unfolded True] Cons.IH[OF rest this] le1 le2] show ?thesis .
    next
      case False
      then have "st = st1" "ev' = ev1" using Cons.prems Inr t l by simp_all
      then show ?thesis using 01 le2 by (auto intro: run_ok_weaken)
    qed
  qed
qed

lemma subscribe_events:
  "e \<in> set (subscribe idx obs) \<Longrightarrow> (\<exists>j. e = MakeChan j 0) \<or> (\<exists>j. e = Go j)"
  by (induction obs arbitrary: idx) auto

lemma subscribe_made:
  "j < length obs \<Longrightarrow> MakeChan (idx + j) 0 \<in> set (subscribe idx obs)"
proof (induction obs arbitrary: idx j)
  case Nil
  then show ?case by simp
next
  case (Cons ob obs)
  show ?case
  proof (cases j)
    case 0
    then show ?thesis by simp
  next
    case (Suc j')
    with Cons.prems have "j' < length obs" by simp
    from Cons.IH[OF this, of "Suc idx"] show ?thesis using Suc by simp
  qed
qed

lemma send_keys_subscribe [simp]: "send_keys (subscribe idx obs) = []"
  by (induction obs arbitrary: idx) simp_all

lemma sends_to_subscribe [simp]: "sends_to j (subscribe idx obs) = 0"
  by (induction obs arbitrary: idx) simp_all

lemma send_keys_close [simp]: "send_keys (close_subscriptions n) = []"
  by (induction n) (simp_all add: close_subscriptions_def)

lemma sends_to_close [simp]: "sends_to j (close_subscriptions n) = 0"
  by (induction n) (simp_all add: close_subscriptions_def)

lemma pipeline_event_no_close: "list_all pipeline_event new \<Longrightarrow> Close idx \<notin> set new"
  by (induction new) auto




lemma IterateContent_run:
  assumes "IterateContent get prep i observers = (st, i', ev)" "observers \<noteq> []"
  obtains c new where
    "layers_loop get prep observers 0 (Layers i) (FileCatalog i) (subscribe 0 observers)
       = (st, c, subscribe 0 observers @ new)"
    "i' = i\<lparr>FileCatalog := c\<rparr>"
    "ev = subscribe 0 observers @ new
            @ (if st = Blocked then [] else close_subscriptions (length observers))"
    "run_ok observers (Layers i) (0, 0, 0) (length (Layers i), 0, 0) (subscribe 0 observers) st
       (subscribe 0 observers @ new)"
proof -
  obtain c ev1 where l: "layers_loop get prep observers 0 (Layers i) (FileCatalog i)
      (subscribe 0 observers) = (st, c, ev1)"
    and i': "i' = i\<lparr>FileCatalog := c\<rparr>"
    and ev: "ev = (if st = Blocked then ev1 else ev1 @ close_subscriptions (length observers))"
    using assms by (auto simp: IterateContent_def split: prod.splits)
  from layers_loop_run_ok[OF _ l, of "Layers i"]
  have r: "run_ok observers (Layers i) (0, 0, 0) (length (Layers i), 0, 0)
             (subscribe 0 observers) st ev1"
    by simp
  then obtain new where n: "ev1 = subscribe 0 observers @ new" unfolding run_ok_def by blast
  show ?thesis using that[of c new] l i' ev r n by simp
qed






text \<open>
  Claim C6. \<open>IterateContent\<close> with no observer returns the error "no content
  observers provided" at once: the trace is empty, so no channel was made, no
  \<open>l.content()\<close> was called and no archive was read, and the image is unchanged.
\<close>

theorem IterateContent_no_observers:
  "IterateContent get prep i [] = (Failed NoContentObservers, i, [])"
  by (simp add: IterateContent_def)

theorem IterateContent_no_observers_witness:
  "IterateContent example_getByLayerTarIndex example_prepareContentReader example_image [] =
     (Failed NoContentObservers, example_image, [])"
  by (rule IterateContent_no_observers)

text \<open>
  Claim C9. Whenever \<open>IterateContent\<close> returns, with nil or with an error, the trace
  ends with the closing of every subscription, \<open>0\<close> to \<open>len(observers) - 1\<close>, each
  closed once and after every other event; these are the channels that were made.
\<close>

theorem IterateContent_closes:
  assumes "IterateContent get prep i observers = (st, i', ev)" "st \<noteq> Blocked"
  shows "\<exists>pre. ev = pre @ map Close [0..<length observers] \<and>
           (\<forall>idx. Close idx \<notin> set pre) \<and>
           (\<forall>idx<length observers. MakeChan idx 0 \<in> set pre)"
proof (cases "observers = []")
  case True
  then show ?thesis using assms by (simp add: IterateContent_def)
next
  case False
  from assms(1) False obtain c new where
    ev: "ev = subscribe 0 observers @ new
            @ (if st = Blocked then [] else close_subscriptions (length observers))"
    and r: "run_ok observers (Layers i) (0, 0, 0) (length (Layers i), 0, 0)
       (subscribe 0 observers) st (subscribe 0 observers @ new)"
    by (rule IterateContent_run)
  from r have pe: "list_all pipeline_event new" unfolding run_ok_def by auto
  have 1: "ev = (subscribe 0 observers @ new) @ map Close [0..<length observers]"
    using ev assms(2) by (simp add: close_subscriptions_def)
  have 2: "\<forall>idx. Close idx \<notin> set (subscribe 0 observers @ new)"
    using pipeline_event_no_close[OF pe] subscribe_events[of _ 0 observers] by auto
  have 3: "\<forall>idx<length observers. MakeChan idx 0 \<in> set (subscribe 0 observers @ new)"
    using subscribe_made[of _ observers 0] by simp
  show ?thesis using 1 2 3 by blast
qed

theorem IterateContent_closes_witness:
  "IterateContent example_getByLayerTarIndex example_prepareContentReader stale_image
     [conf_only, catch_all] =
   (Failed (MismatchedTarHeaderNames ''bin/other'' ''bin/app''),
    stale_image\<lparr>FileCatalog := stale_catalog\<rparr>,
    stale_trace @ [Close 0, Close 1]) \<and>
   Failed (MismatchedTarHeaderNames ''bin/other'' ''bin/app'') \<noteq> Blocked \<and>
   (\<exists>pre. stale_trace @ [Close 0, Close 1] = pre @ map Close [0..<length [conf_only, catch_all]] \<and>
          (\<forall>idx. Close idx \<notin> set pre) \<and>
          (\<forall>idx<length [conf_only, catch_all]. MakeChan idx 0 \<in> set pre))"
  using stale_run IterateContent_closes[OF stale_run] by simp



lemma TarIterator_append:
  "TarIterator visitor index (es1 @ es2) c ev =
     (case TarIterator visitor index es1 c ev of
        (st, c1, ev1) \<Rightarrow>
          if st = Done then TarIterator visitor (index + length es1) es2 c1 ev1
          else (st, c1, ev1))"
proof (induction es1 arbitrary: index c ev)
  case Nil
  then show ?case by simp
next
  case (Cons e es1)
  show ?case
  proof (cases e)
    case (Inl err)
    then show ?thesis by simp
  next
    case (Inr hr)
    then show ?thesis using Cons.IH by (cases hr) (simp split: prod.splits)
  qed
qed

lemma layers_loop_append:
  "layers_loop get prep obs n (ls1 @ ls2) c ev =
     (case layers_loop get prep obs n ls1 c ev of
        (st, c1, ev1) \<Rightarrow>
          if st = Done then layers_loop get prep obs (n + length ls1) ls2 c1 ev1
          else (st, c1, ev1))"
proof (induction ls1 arbitrary: n c ev)
  case Nil
  then show ?case by simp
next
  case (Cons l ls1)
  show ?case using Cons.IH by (simp split: sum.splits prod.splits)
qed

text \<open>
  Claim C4. Let the layers before \<open>l\<close> and the entries of \<open>l\<close> before \<open>header\<close> have
  been visited without error. If the catalog entry found for the position of \<open>header\<close>
  records a tar header name other than \<open>header.Name\<close>, then \<open>IterateContent\<close> returns
  the error "mismatched tar header names", and its trace is the trace up to that entry
  followed by the closing of the channels: whatever entries and layers follow, nothing
  of them is delivered.
\<close>

theorem mismatch_aborts:
  assumes obs: "observers \<noteq> []"
    and layers: "Layers i = before @ l # after"
    and before: "layers_loop get prep observers 0 before (FileCatalog i) (subscribe 0 observers)
                   = (Done, c1, ev1)"
    and archive: "content l = Inr (es1 @ Inr (header, tarReader) # es2)"
    and earlier: "TarIterator (tarVisitor get prep observers (length before) l) 0 es1 c1
                    (ev1 @ [LayerContent (length before)]) = (Done, c2, ev2)"
    and entry: "get c2 (Digest l) (length es1) = Inr entry"
    and mismatch: "TarHeaderName entry \<noteq> Name header"
  shows "IterateContent get prep i observers =
           (Failed (MismatchedTarHeaderNames (Name header) (TarHeaderName entry)),
            i\<lparr>FileCatalog := c2\<rparr>,
            ev2 @ map Close [0..<length observers])"
proof -
  let ?err = "Failed (MismatchedTarHeaderNames (Name header) (TarHeaderName entry))"
  have v: "tarVisitor get prep observers (length before) l (length es1) header tarReader c2 ev2
             = (?err, c2, ev2)"
    using entry mismatch by (simp add: tarVisitor_def)
  have t: "TarIterator (tarVisitor get prep observers (length before) l) 0
             (es1 @ Inr (header, tarReader) # es2) c1 (ev1 @ [LayerContent (length before)])
           = (?err, c2, ev2)"
    unfolding TarIterator_append earlier using v by simp
  have l: "layers_loop get prep observers (length before) (l # after) c1 ev1 = (?err, c2, ev2)"
    using archive t by simp
  have "layers_loop get prep observers 0 (Layers i) (FileCatalog i) (subscribe 0 observers)
          = (?err, c2, ev2)"
    unfolding layers layers_loop_append before using l by simp
  then show ?thesis using obs by (simp add: IterateContent_def close_subscriptions_def)
qed

theorem mismatch_aborts_witness:
  "Layers stale_image = [layer1] @ stale_layer # [layer2] \<and>
   content stale_layer =
     Inr ([Inr (\<lparr>Name = ''etc/app.conf''\<rparr>, ''v1'')]
          @ Inr (\<lparr>Name = ''bin/other''\<rparr>, ''ELF'') # [Inr (\<lparr>Name = ''bin/more''\<rparr>, ''x'')]) \<and>
   example_getByLayerTarIndex stale_catalog (Digest stale_layer) 1 = Inr bin_entry \<and>
   TarHeaderName bin_entry \<noteq> Name \<lparr>Name = ''bin/other''\<rparr> \<and>
   IterateContent example_getByLayerTarIndex example_prepareContentReader stale_image
     [conf_only, catch_all] =
   (Failed (MismatchedTarHeaderNames ''bin/other'' ''bin/app''),
    stale_image\<lparr>FileCatalog := stale_catalog\<rparr>,
    stale_trace @ [Close 0, Close 1])"
proof -
  have obs: "[conf_only, catch_all] \<noteq> []" by simp
  have layers: "Layers stale_image = [layer1] @ stale_layer # [layer2]"
    by (simp add: stale_image_def)
  have before: "layers_loop example_getByLayerTarIndex example_prepareContentReader
      [conf_only, catch_all] 0 [layer1] (FileCatalog stale_image)
      (subscribe 0 [conf_only, catch_all]) = (Done, stale_catalog_before, stale_prefix)"
    by (simp add: example_defs run_defs stale_trace_def stale_prefix_def)
  have archive: "content stale_layer =
     Inr ([Inr (\<lparr>Name = ''etc/app.conf''\<rparr>, ''v1'')]
          @ Inr (\<lparr>Name = ''bin/other''\<rparr>, ''ELF'') # [Inr (\<lparr>Name = ''bin/more''\<rparr>, ''x'')])"
    by (simp add: stale_layer_def)
  have earlier: "TarIterator
      (tarVisitor example_getByLayerTarIndex example_prepareContentReader
         [conf_only, catch_all] (length [layer1]) stale_layer)
      0 [Inr (\<lparr>Name = ''etc/app.conf''\<rparr>, ''v1'')] stale_catalog_before
      (stale_prefix @ [LayerContent (length [layer1])])
     = (Done, stale_catalog, stale_trace)"
    by (simp add: example_defs run_defs stale_trace_def stale_prefix_def)
  have entry: "example_getByLayerTarIndex stale_catalog (Digest stale_layer)
      (length [Inr (\<lparr>Name = ''etc/app.conf''\<rparr>, ''v1'')]) = Inr bin_entry"
    by (simp add: example_defs run_defs)
  have mismatch: "TarHeaderName bin_entry \<noteq> Name \<lparr>Name = ''bin/other''\<rparr>"
    by (simp add: bin_entry_def)
  note t = mismatch_aborts[where get = example_getByLayerTarIndex
      and prep = example_prepareContentReader and observers = "[conf_only, catch_all]"
      and i = stale_image and before = "[layer1]" and l = stale_layer and after = "[layer2]"
      and ?c1.0 = stale_catalog_before and ?ev1.0 = stale_prefix
      and ?es1.0 = "[Inr (\<lparr>Name = ''etc/app.conf''\<rparr>, ''v1'')]"
      and header = "\<lparr>Name = ''bin/other''\<rparr>" and tarReader = "''ELF''"
      and ?es2.0 = "[Inr (\<lparr>Name = ''bin/more''\<rparr>, ''x'')]"
      and ?c2.0 = stale_catalog and ?ev2.0 = stale_trace and entry = bin_entry]
  have run: "IterateContent example_getByLayerTarIndex example_prepareContentReader stale_image
     [conf_only, catch_all] =
   (Failed (MismatchedTarHeaderNames ''bin/other'' ''bin/app''),
    stale_image\<lparr>FileCatalog := stale_catalog\<rparr>,
    stale_trace @ [Close 0, Close 1])"
    using t[OF obs layers before archive earlier entry mismatch]
    by (simp add: bin_entry_def)
  show ?thesis using layers archive entry mismatch run by simp
qed


lemma interested_Nil [simp]: "interested [] ref = []"
  by (simp add: interested_def)







end
